theory Spec2Isabelle
  imports Complex_Main
begin

section \<open>Laplace relaxation on a square grid: the model of system.py\<close>

text \<open>
  Python floats are modelled as the reals: rounding, NaN and infinities are outside the
  model. A two-dimensional numpy array is the list of its rows, \<open>reshape(-1,)\<close> is
  \<open>concat\<close> (row-major order), and an in-place update of an array returns the updated
  list. Exceptions are values of \<open>error\<close>.
\<close>

datatype error =
  AssertionError | ZeroDivisionError | IndexError | ValueError | LinAlgError | AttributeError

text \<open>What the program prints, one value for each \<open>print\<close>.\<close>

datatype printed =
    Text string
  | IterDiff nat real
  | AddingRectangle "real \<times> real" real real
  | AddingCircle "real \<times> real" real
  | NotImplemented nat string

text \<open>The Python values a caller can pass for \<open>Ns\<close>.\<close>

datatype pyval = PyInt int | PyFloat real | PyBool bool | PyStr string | PyNone

type_synonym vec = "real list"
type_synonym mat = "real list list"

subsection \<open>numpy helpers\<close>

definition np_zeros2 :: "nat \<Rightarrow> nat \<Rightarrow> mat" where
  "np_zeros2 m n = replicate m (replicate n 0)"

definition set2 :: "'a list list \<Rightarrow> nat \<Rightarrow> nat \<Rightarrow> 'a \<Rightarrow> 'a list list" where
  "set2 M i j v = M[i := (M ! i)[j := v]]"

text \<open>An integer index along an axis of \<open>n\<close> entries: a negative index counts from the
  end, anything else out of range raises IndexError (\<open>None\<close>).\<close>

definition np_index :: "nat \<Rightarrow> int \<Rightarrow> nat option" where
  "np_index n j =
     (if 0 \<le> j \<and> j < int n then Some (nat j)
      else if - int n \<le> j \<and> j < 0 then Some (nat (int n + j))
      else None)"

text \<open>\<open>int(float(i)/Ns)\<close>: the quotient truncated towards zero, for \<open>i \<ge> 0\<close>.\<close>

definition trunc_div :: "nat \<Rightarrow> int \<Rightarrow> int" where
  "trunc_div i n = (if 0 \<le> n then int i div n else - (int i div (- n)))"

subsection \<open>The System class\<close>

text \<open>Shape and System have the attributes of \<open>Grid\<close> in common. The attribute
  \<open>grid\<close> (the coordinates of the grid points) is a function of \<open>Ns\<close> and is computed
  where it is read, see \<open>grid_coord\<close>. The attributes \<open>A\<close> and \<open>boundary_conditions\<close> of
  a System exist only once \<open>create_method_matrix\<close> has run.\<close>

record Grid =
  Ns :: int
  h :: real
  potentials :: mat
  sources :: "bool list list"
  source_potentials :: mat

record System = Grid +
  A :: "mat option"
  boundary_conditions :: "(int \<times> int) list list option"

record Shape = Grid +
  potential :: real

subsection \<open>create_method_matrix\<close>

text \<open>One write \<open>self.A[i,j] = 1\<close> inside the \<open>try\<close>: an IndexError of the write is
  caught like the one raised by hand, and records the neighbour as a boundary.\<close>

definition assign_one ::
  "nat \<Rightarrow> nat \<Rightarrow> int \<Rightarrow> int \<times> int \<Rightarrow> mat \<times> (int \<times> int) list \<Rightarrow> mat \<times> (int \<times> int) list" where
  "assign_one N i j c st =
     (case np_index N j of
        Some j' \<Rightarrow> (set2 (fst st) i j' 1, snd st)
      | None \<Rightarrow> (fst st, snd st @ [c]))"

definition stencil_neighbour ::
  "int \<Rightarrow> nat \<Rightarrow> nat \<Rightarrow> int \<Rightarrow> int \<Rightarrow> mat \<times> (int \<times> int) list \<Rightarrow> int \<times> int
     \<Rightarrow> mat \<times> (int \<times> int) list" where
  "stencil_neighbour n N i coord1 coord2 st c =
     (let c1 = fst c; c2 = snd c in
      if c1 = - 1 \<or> c2 = - 1 \<or> c1 > n - 1 \<or> c2 > n - 1 then (fst st, snd st @ [c])
      else if c1 = coord1 - 1 then assign_one N i (int i - n) c st
      else if c1 = coord1 + 1 then assign_one N i (int i + n) c st
      else if c2 = coord2 - 1 then assign_one N i (int i - 1) c st
      else if c2 = coord2 + 1 then assign_one N i (int i + 1) c st
      else st)"

definition stencil_row ::
  "int \<Rightarrow> nat \<Rightarrow> mat \<times> (int \<times> int) list list \<Rightarrow> nat \<Rightarrow> mat \<times> (int \<times> int) list list" where
  "stencil_row n N st i =
     (let coord1 = trunc_div i n;
          coord2 = int i mod n;
          A1 = set2 (fst st) i i (- 4);
          r = foldl (stencil_neighbour n N i coord1 coord2) (A1, [])
                (zip [coord1, coord1, coord1 - 1, coord1 + 1]
                     [coord2 - 1, coord2 + 1, coord2, coord2])
      in (fst r, snd st @ [snd r]))"

definition method_matrix :: "int \<Rightarrow> mat \<times> (int \<times> int) list list" where
  "method_matrix n =
     (let N = nat (n ^ 2) in foldl (stencil_row n N) (np_zeros2 N N, []) [0..<N])"

definition create_method_matrix :: "System \<Rightarrow> System" where
  "create_method_matrix S =
     (let r = method_matrix (Ns S)
      in S\<lparr>A := Some (fst r), boundary_conditions := Some (snd r)\<rparr>)"


subsection \<open>Vectors and matrices\<close>

definition np_diag_diag :: "mat \<Rightarrow> mat" where
  "np_diag_diag M =
     map (\<lambda>i. map (\<lambda>j. if i = j then M ! i ! j else 0) [0..<length M]) [0..<length M]"

definition np_diagonal :: "mat \<Rightarrow> vec" where
  "np_diagonal M = map (\<lambda>i. M ! i ! i) [0..<length M]"

definition np_tril :: "mat \<Rightarrow> int \<Rightarrow> mat" where
  "np_tril M k =
     map (\<lambda>i. map (\<lambda>j. if int j \<le> int i + k then M ! i ! j else 0) [0..<length (M ! i)])
       [0..<length M]"

definition np_triu :: "mat \<Rightarrow> int \<Rightarrow> mat" where
  "np_triu M k =
     map (\<lambda>i. map (\<lambda>j. if int i + k \<le> int j then M ! i ! j else 0) [0..<length (M ! i)])
       [0..<length M]"

definition mat_add :: "mat \<Rightarrow> mat \<Rightarrow> mat" where
  "mat_add M1 M2 = map2 (map2 (+)) M1 M2"

definition mat_neg :: "mat \<Rightarrow> mat" where
  "mat_neg M = map (map uminus) M"

definition vec_add :: "vec \<Rightarrow> vec \<Rightarrow> vec" where
  "vec_add x y = map2 (+) x y"

definition ncols :: "mat \<Rightarrow> nat" where
  "ncols M = (case M of [] \<Rightarrow> 0 | row # _ \<Rightarrow> length row)"

text \<open>\<open>np.dot\<close> of two matrices, and of a matrix and a vector.\<close>

definition np_dot_mm :: "mat \<Rightarrow> mat \<Rightarrow> mat" where
  "np_dot_mm M1 M2 =
     map (\<lambda>row. map (\<lambda>j. (\<Sum>k\<leftarrow>[0..<length M2]. row ! k * M2 ! k ! j)) [0..<ncols M2]) M1"

definition np_dot_mv :: "mat \<Rightarrow> vec \<Rightarrow> vec" where
  "np_dot_mv M x = map (\<lambda>row. (\<Sum>k\<leftarrow>[0..<length x]. row ! k * x ! k)) M"

text \<open>\<open>np.linalg.norm\<close> of a vector: the Euclidean norm.\<close>

definition linalg_norm :: "vec \<Rightarrow> real" where
  "linalg_norm x = sqrt (\<Sum>v\<leftarrow>x. \<bar>v\<bar> ^ 2)"

text \<open>\<open>x[sources] = orig_x[sources]\<close>, for a mask and vectors of one length.\<close>

definition mask_assign :: "bool list \<Rightarrow> vec \<Rightarrow> vec \<Rightarrow> vec" where
  "mask_assign msk orig_x x = map (\<lambda>k. if msk ! k then orig_x ! k else x ! k) [0..<length x]"

fun chunks :: "nat \<Rightarrow> nat \<Rightarrow> 'a list \<Rightarrow> 'a list list" where
  "chunks 0 n xs = []"
| "chunks (Suc m) n xs = take n xs # chunks m n (drop n xs)"

text \<open>\<open>x.reshape(rows, -1)\<close>; \<open>None\<close> is the ValueError of a row count that is negative
  or does not divide the length.\<close>

definition np_reshape :: "int \<Rightarrow> 'a list \<Rightarrow> 'a list list option" where
  "np_reshape rows x =
     (if 0 < rows \<and> x \<noteq> [] \<and> length x mod nat rows = 0
      then Some (chunks (nat rows) (length x div nat rows) x) else None)"

subsection \<open>The relaxation loop\<close>

text \<open>The three methods run the same loop over \<open>range(max_iter)\<close>, word for word, around
  their own sweep: \<open>relax_loop sweep tol verbose i n x\<close> is the loop at index \<open>i\<close> with \<open>n\<close>
  indices left, and returns the vector together with the lines printed.\<close>

fun relax_loop ::
  "(vec \<Rightarrow> vec) \<Rightarrow> real \<Rightarrow> bool \<Rightarrow> nat \<Rightarrow> nat \<Rightarrow> vec \<Rightarrow> vec \<times> printed list" where
  "relax_loop sweep tol verbose i 0 x = (x, [])"
| "relax_loop sweep tol verbose i (Suc n) x =
     (let initial_norm = linalg_norm x;
          x' = sweep x;
          final_norm = linalg_norm x';
          diff = \<bar>initial_norm - final_norm\<bar>;
          out = (if verbose then [IterDiff i diff] else [])
      in if diff < tol then (x', out)
         else (let r = relax_loop sweep tol verbose (Suc i) n x' in (fst r, out @ snd r)))"

text \<open>The start of each method: the flattened potentials are replaced by random numbers
  (\<open>rnd k\<close> is the number drawn for cell \<open>k\<close>) and the source cells are put back.\<close>

definition start_vector :: "(nat \<Rightarrow> real) \<Rightarrow> 'a Grid_scheme \<Rightarrow> vec" where
  "start_vector rnd S =
     (let x = concat (potentials S);
          orig_x = x;
          srcs = concat (sources S);
          x = map rnd [0..<length x]
      in mask_assign srcs orig_x x)"

text \<open>The end of each method: \<open>self.potentials = x.reshape(self.Ns,-1)\<close>.\<close>

definition store_potentials :: "System \<Rightarrow> vec \<Rightarrow> printed list \<Rightarrow> error + System \<times> printed list" where
  "store_potentials S x out =
     (case np_reshape (Ns S) x of
        None \<Rightarrow> Inl ValueError
      | Some P \<Rightarrow> Inr (S\<lparr>potentials := P\<rparr>, out))"

subsection \<open>jacobi\<close>

text \<open>\<open>np.linalg.inv\<close> is a parameter of the model, \<open>linalg_inv\<close>; \<open>None\<close> is its
  LinAlgError.\<close>

definition jacobi_matrices :: "(mat \<Rightarrow> mat option) \<Rightarrow> mat \<Rightarrow> nat \<Rightarrow> (mat \<times> vec) option" where
  "jacobi_matrices linalg_inv Am N =
     (let b = replicate N 0;
          D = np_diag_diag Am;
          L = np_tril Am (- 1);
          U = np_triu Am 1
      in case linalg_inv D of
           None \<Rightarrow> None
         | Some D_inv \<Rightarrow>
             (let L_U = mat_add L U;
                  T = mat_neg (np_dot_mm D_inv L_U);
                  D_inv_b = np_dot_mv D_inv b
              in Some (T, D_inv_b)))"

definition jacobi_sweep :: "mat \<Rightarrow> vec \<Rightarrow> bool list \<Rightarrow> vec \<Rightarrow> vec \<Rightarrow> vec" where
  "jacobi_sweep T D_inv_b srcs orig_x x =
     mask_assign srcs orig_x (vec_add (np_dot_mv T x) D_inv_b)"

definition jacobi ::
  "(mat \<Rightarrow> mat option) \<Rightarrow> (nat \<Rightarrow> real) \<Rightarrow> real \<Rightarrow> int \<Rightarrow> bool \<Rightarrow> System
     \<Rightarrow> error + System \<times> printed list" where
  "jacobi linalg_inv rnd tol max_iter verbose S =
     (let N = nat ((Ns S) ^ 2);
          S1 = create_method_matrix S
      in case A S1 of
           None \<Rightarrow> Inl AttributeError
         | Some Am \<Rightarrow>
            (case jacobi_matrices linalg_inv Am N of
               None \<Rightarrow> Inl LinAlgError
             | Some (T, D_inv_b) \<Rightarrow>
                 (let orig_x = concat (potentials S1);
                      srcs = concat (sources S1);
                      x = start_vector rnd S1;
                      r = relax_loop (jacobi_sweep T D_inv_b srcs orig_x) tol verbose 0
                            (nat max_iter) x
                  in store_potentials S1 (fst r)
                       (Text ''Jacobi: finished creating matrices'' # snd r))))"

subsection \<open>gauss_seidel\<close>

definition gauss_seidel_matrices ::
  "(mat \<Rightarrow> mat option) \<Rightarrow> mat \<Rightarrow> nat \<Rightarrow> (mat \<times> vec) option" where
  "gauss_seidel_matrices linalg_inv Am N =
     (let b = replicate N 0;
          D = np_diag_diag Am;
          L = np_tril Am (- 1);
          U = np_triu Am 1
      in case linalg_inv (mat_add L D) of
           None \<Rightarrow> None
         | Some L_D_inv \<Rightarrow>
             (let L_D_inv_b = np_dot_mv L_D_inv b;
                  T = mat_neg (np_dot_mm L_D_inv U)
              in Some (T, L_D_inv_b)))"

definition gauss_seidel_sweep :: "mat \<Rightarrow> vec \<Rightarrow> bool list \<Rightarrow> vec \<Rightarrow> vec \<Rightarrow> vec" where
  "gauss_seidel_sweep T L_D_inv_b srcs orig_x x =
     mask_assign srcs orig_x (vec_add (np_dot_mv T x) L_D_inv_b)"

definition gauss_seidel ::
  "(mat \<Rightarrow> mat option) \<Rightarrow> (nat \<Rightarrow> real) \<Rightarrow> real \<Rightarrow> int \<Rightarrow> bool \<Rightarrow> System
     \<Rightarrow> error + System \<times> printed list" where
  "gauss_seidel linalg_inv rnd tol max_iter verbose S =
     (let N = nat ((Ns S) ^ 2);
          S1 = create_method_matrix S
      in case A S1 of
           None \<Rightarrow> Inl AttributeError
         | Some Am \<Rightarrow>
            (case gauss_seidel_matrices linalg_inv Am N of
               None \<Rightarrow> Inl LinAlgError
             | Some (T, L_D_inv_b) \<Rightarrow>
                 (let orig_x = concat (potentials S1);
                      srcs = concat (sources S1);
                      x = start_vector rnd S1;
                      r = relax_loop (gauss_seidel_sweep T L_D_inv_b srcs orig_x) tol verbose 0
                            (nat max_iter) x
                  in store_potentials S1 (fst r)
                       (Text ''Gauss Seidel: finished creating matrices'' # snd r))))"

subsection \<open>SOR\<close>

text \<open>One round of the loop over \<open>k\<close> in \<open>SOR_sub_func\<close>. \<open>D ! k\<close> is never zero where
  SOR calls it (the diagonal of the matrix is \<open>-4\<close>).\<close>

definition SOR_cell ::
  "nat \<Rightarrow> bool list \<Rightarrow> mat \<Rightarrow> mat \<Rightarrow> real \<Rightarrow> vec \<Rightarrow> vec \<Rightarrow> vec \<Rightarrow> nat \<Rightarrow> vec" where
  "SOR_cell N srcs L U w D b x k =
     (if srcs ! k then x
      else (let s1 = foldl (\<lambda>s j. s + L ! k ! j * x ! j) 0 [0..<k];
                s2 = foldl (\<lambda>s j. s + U ! k ! j * x ! j) 0 [Suc k..<N]
            in x[k := (1 - w) * x ! k + (w / D ! k) * (b ! k - s1 - s2)]))"

definition SOR_sweep ::
  "nat \<Rightarrow> bool list \<Rightarrow> mat \<Rightarrow> mat \<Rightarrow> real \<Rightarrow> vec \<Rightarrow> vec \<Rightarrow> vec \<Rightarrow> vec" where
  "SOR_sweep N srcs L U w D b x = foldl (SOR_cell N srcs L U w D b) x [0..<N]"

definition SOR_sub_func ::
  "int \<Rightarrow> vec \<Rightarrow> nat \<Rightarrow> bool list \<Rightarrow> mat \<Rightarrow> mat \<Rightarrow> real \<Rightarrow> vec \<Rightarrow> vec \<Rightarrow> real \<Rightarrow> bool
     \<Rightarrow> vec \<times> printed list" where
  "SOR_sub_func max_iter x N srcs L U w D b tol verbose =
     relax_loop (SOR_sweep N srcs L U w D b) tol verbose 0 (nat max_iter) x"

definition SOR ::
  "(nat \<Rightarrow> real) \<Rightarrow> real \<Rightarrow> real \<Rightarrow> int \<Rightarrow> bool \<Rightarrow> System \<Rightarrow> error + System \<times> printed list" where
  "SOR rnd w tol max_iter verbose S =
     (let N = nat ((Ns S) ^ 2);
          S1 = create_method_matrix S
      in case A S1 of
           None \<Rightarrow> Inl AttributeError
         | Some Am \<Rightarrow>
             (let b = replicate N 0;
                  D = np_diagonal Am;
                  L = np_tril Am (- 1);
                  U = np_triu Am 1;
                  srcs = concat (sources S1);
                  x = start_vector rnd S1;
                  r = SOR_sub_func max_iter x N srcs L U w D b tol verbose
              in store_potentials S1 (fst r) (snd r)))"

subsection \<open>System.__init__ and System.add\<close>

text \<open>\<open>np.mgrid[0:1:complex(0, Ns), ...]\<close> has \<open>int(abs(complex(0, Ns)))\<close> points along
  each axis, so the arrays are \<open>\<bar>Ns\<bar>\<close> by \<open>\<bar>Ns\<bar>\<close>.\<close>

definition System_init :: "pyval \<Rightarrow> error + System" where
  "System_init v =
     (case v of
        PyInt n \<Rightarrow>
          if n = 0 then Inl ZeroDivisionError
          else (let k = nat \<bar>n\<bar> in
            Inr \<lparr>Ns = n, h = 1 / real_of_int n,
                 potentials = np_zeros2 k k,
                 sources = replicate k (replicate k False),
                 source_potentials = np_zeros2 k k,
                 A = None, boundary_conditions = None\<rparr>)
      | _ \<Rightarrow> Inl AssertionError)"

text \<open>\<open>+=\<close> on arrays of one shape; on boolean arrays it is the logical or.\<close>

definition add :: "System \<Rightarrow> Shape \<Rightarrow> error + System" where
  "add S shape_instance =
     (if Ns shape_instance \<noteq> Ns S then Inl AssertionError
      else Inr (S\<lparr>potentials := map2 (map2 (+)) (potentials S) (potentials shape_instance),
                  sources := map2 (map2 (\<or>)) (sources S) (sources shape_instance),
                  source_potentials :=
                    map2 (map2 (+)) (source_potentials S) (source_potentials shape_instance)\<rparr>))"

subsection \<open>The Shape class\<close>

text \<open>The coordinate of grid point \<open>k\<close> along an axis of \<open>n\<close> points:
  \<open>np.mgrid[0:1:complex(0, n)]\<close>.\<close>

definition grid_coord :: "nat \<Rightarrow> nat \<Rightarrow> real" where
  "grid_coord n k = (if n = 1 then 0 else real k / real (n - 1))"

text \<open>\<open>np.where(abs_diff[i] == np.min(abs_diff[i]))\<close> for the two axes, in row-major
  order, one pair of indices for each match.\<close>

definition where_min :: "nat \<Rightarrow> (nat \<Rightarrow> nat \<Rightarrow> real) \<Rightarrow> (nat \<times> nat) list" where
  "where_min n d =
     (let cells = concat (map (\<lambda>r. map (\<lambda>c. (r, c)) [0..<n]) [0..<n]);
          mn = Min (set (map (\<lambda>rc. d (fst rc) (snd rc)) cells))
      in filter (\<lambda>rc. d (fst rc) (snd rc) = mn) cells)"

text \<open>\<open>Counter(xs).most_common()[0][0]\<close>: the key counted most often, the one met first
  among equals (the order of CPython 3.7 and later); \<open>None\<close> is the IndexError on an
  empty list.\<close>

definition most_common_first :: "'a list \<Rightarrow> 'a option" where
  "most_common_first xs =
     (case rev (remdups (rev xs)) of
        [] \<Rightarrow> None
      | k # ks \<Rightarrow>
          Some (foldl (\<lambda>best k'. if count_list xs best < count_list xs k' then k' else best) k ks))"

definition find_closest_gridpoint :: "'a Grid_scheme \<Rightarrow> real \<times> real \<Rightarrow> (nat \<times> nat) option" where
  "find_closest_gridpoint s coords =
     (let n = nat \<bar>Ns s\<bar>;
          diff_list = [where_min n (\<lambda>r c. \<bar>grid_coord n r - fst coords\<bar>),
                       where_min n (\<lambda>r c. \<bar>grid_coord n c - snd coords\<bar>)]
      in most_common_first (concat diff_list))"

text \<open>The three assignments at one index pair.\<close>

definition mark :: "Shape \<Rightarrow> nat \<Rightarrow> nat \<Rightarrow> Shape" where
  "mark s i j =
     s\<lparr>potentials := set2 (potentials s) i j (potential s),
       sources := set2 (sources s) i j True,
       source_potentials := set2 (source_potentials s) i j (potential s)\<rparr>"

definition in_array :: "'a list list \<Rightarrow> nat \<Rightarrow> nat \<Rightarrow> bool" where
  "in_array M i j = (i < length M \<and> j < length (M ! i))"

text \<open>\<open>add_source\<close> with the origin alone: a point source.\<close>

definition add_point :: "Shape \<Rightarrow> real \<times> real \<Rightarrow> error + Shape" where
  "add_point s origin =
     (case find_closest_gridpoint s origin of
        None \<Rightarrow> Inl IndexError
      | Some source_coords \<Rightarrow>
          (let i = fst source_coords; j = snd source_coords in
           if in_array (potentials s) i j \<and> in_array (sources s) i j
                \<and> in_array (source_potentials s) i j
           then Inr (mark s i j) else Inl IndexError))"

fun add_points :: "Shape \<Rightarrow> (real \<times> real) list \<Rightarrow> error + Shape" where
  "add_points s [] = Inr s"
| "add_points s (p # ps) =
     (case add_point s p of Inl e \<Rightarrow> Inl e | Inr s' \<Rightarrow> add_points s' ps)"

text \<open>\<open>np.arange(start, stop, step)\<close> on floats.\<close>

definition np_arange :: "real \<Rightarrow> real \<Rightarrow> real \<Rightarrow> real list" where
  "np_arange start stop step =
     map (\<lambda>i. start + real i * step) [0..<nat \<lceil>(stop - start) / step\<rceil>]"

subsubsection \<open>fill\<close>

definition fill_row :: "Shape \<Rightarrow> nat \<Rightarrow> Shape" where
  "fill_row s i =
     (let row = sources s ! i;
          indices = filter (\<lambda>j. row ! j) [0..<length row]
      in if length indices > 1
         then (let min_index = hd indices; max_index = last indices
               in foldl (\<lambda>s' index. mark s' i index) s [min_index + 1..<max_index])
         else s)"

definition fill :: "Shape \<Rightarrow> Shape" where
  "fill s = foldl fill_row s [0..<length (sources s)]"

subsubsection \<open>add_source\<close>

text \<open>The keyword arguments that \<open>add_source\<close> reads.\<close>

record kwargs =
  kw_shape :: "string option"
  kw_filled :: "bool option"

text \<open>One side of the rectangle, from \<open>vertex1\<close> to \<open>vertex2\<close>.\<close>

definition rectangle_side ::
  "Shape \<times> printed list \<Rightarrow> (real \<times> real) \<times> (real \<times> real) \<Rightarrow> error + Shape \<times> printed list" where
  "rectangle_side st vs =
     (let s = fst st; x1 = fst (fst vs); x2 = fst (snd vs); y1 = snd (fst vs); y2 = snd (snd vs) in
      if x1 = x2 then
        (case add_points s (map (\<lambda>y. (x1, y)) (np_arange (min y1 y2) (max y1 y2) (h s))) of
           Inl e \<Rightarrow> Inl e | Inr s' \<Rightarrow> Inr (s', snd st))
      else if y1 = y2 then
        (case add_points s (map (\<lambda>x. (x, y1)) (np_arange (min x1 x2) (max x1 x2) (h s))) of
           Inl e \<Rightarrow> Inl e | Inr s' \<Rightarrow> Inr (s', snd st))
      else Inr (s, snd st @ [Text ''vertices do not lie along straight lines!'']))"

fun rectangle_sides ::
  "Shape \<times> printed list \<Rightarrow> ((real \<times> real) \<times> (real \<times> real)) list \<Rightarrow> error + Shape \<times> printed list" where
  "rectangle_sides st [] = Inr st"
| "rectangle_sides st (vs # rest) =
     (case rectangle_side st vs of Inl e \<Rightarrow> Inl e | Inr st' \<Rightarrow> rectangle_sides st' rest)"

definition rectangle_outline ::
  "Shape \<Rightarrow> real \<times> real \<Rightarrow> real \<Rightarrow> real \<Rightarrow> error + Shape \<times> printed list" where
  "rectangle_outline s origin width height =
     (let min_x = fst origin - width / 2;
          max_x = fst origin + width / 2;
          min_y = snd origin - height / 2;
          max_y = snd origin + height / 2;
          vertices = zip [min_x, min_x, max_x, max_x, min_x] [min_y, max_y, max_y, min_y, min_y]
      in rectangle_sides (s, [AddingRectangle origin width height])
           (zip (butlast vertices) (tl vertices)))"

definition circle_outline :: "Shape \<Rightarrow> real \<times> real \<Rightarrow> real \<Rightarrow> error + Shape \<times> printed list" where
  "circle_outline s origin r =
     (if 2 * r = 0 then Inl ZeroDivisionError
      else (let d_theta = h s / (2 * r) in
        case add_points s
               (map (\<lambda>theta. (fst origin + r * sin theta, snd origin + r * cos theta))
                  (np_arange 0 (2 * pi) d_theta)) of
          Inl e \<Rightarrow> Inl e
        | Inr s' \<Rightarrow> Inr (s', [AddingCircle origin r])))"

definition fill_if :: "bool \<Rightarrow> error + Shape \<times> printed list \<Rightarrow> error + Shape \<times> printed list" where
  "fill_if filled r =
     (case r of Inl e \<Rightarrow> Inl e
      | Inr st \<Rightarrow> Inr (if filled then fill (fst st) else fst st, snd st))"

definition add_source ::
  "Shape \<Rightarrow> real \<times> real \<Rightarrow> real list \<Rightarrow> kwargs \<Rightarrow> error + Shape \<times> printed list" where
  "add_source s origin args kw =
     (if args = [] then
        (case add_point s origin of Inl e \<Rightarrow> Inl e | Inr s' \<Rightarrow> Inr (s', []))
      else
        (let shape = (case kw_shape kw of Some sh \<Rightarrow> sh | None \<Rightarrow> ''rectangle'');
             filled = (case kw_filled kw of Some f \<Rightarrow> f | None \<Rightarrow> True);
             not_implemented_message = NotImplemented (length args) shape
         in if shape = ''rectangle'' then
              (if length args = 2
               then fill_if filled (rectangle_outline s origin (args ! 0) (args ! 1))
               else Inr (s, [not_implemented_message]))
            else if shape = ''circle'' then
              (if length args = 1
               then fill_if filled (circle_outline s origin (args ! 0))
               else Inr (s, [not_implemented_message]))
            else Inr (s, [])))"

definition Shape_init ::
  "pyval \<Rightarrow> real \<Rightarrow> real \<times> real \<Rightarrow> real list \<Rightarrow> kwargs \<Rightarrow> error + Shape \<times> printed list" where
  "Shape_init v p origin args kw =
     (case v of
        PyInt n \<Rightarrow>
          if n = 0 then Inl ZeroDivisionError
          else (let k = nat \<bar>n\<bar> in
            add_source
              \<lparr>Ns = n, h = 1 / real_of_int n,
               potentials = np_zeros2 k k,
               sources = replicate k (replicate k False),
               source_potentials = np_zeros2 k k,
               potential = p\<rparr> origin args kw)
      | _ \<Rightarrow> Inl AssertionError)"

subsection \<open>Notions used to state the properties\<close>

text \<open>The cell of a flattened index, its four cardinal neighbours, and the neighbours
  that lie on the grid.\<close>

definition cell_of :: "int \<Rightarrow> nat \<Rightarrow> int \<times> int" where
  "cell_of n i = (int i div n, int i mod n)"

definition flat_index :: "int \<Rightarrow> int \<times> int \<Rightarrow> int" where
  "flat_index n c = fst c * n + snd c"

definition in_bounds :: "int \<Rightarrow> int \<times> int \<Rightarrow> bool" where
  "in_bounds n c = (0 \<le> fst c \<and> fst c < n \<and> 0 \<le> snd c \<and> snd c < n)"

definition cardinal_neighbours :: "int \<times> int \<Rightarrow> (int \<times> int) list" where
  "cardinal_neighbours c =
     [(fst c, snd c - 1), (fst c, snd c + 1), (fst c - 1, snd c), (fst c + 1, snd c)]"

definition in_bounds_neighbours :: "int \<Rightarrow> nat \<Rightarrow> (int \<times> int) list" where
  "in_bounds_neighbours n i = filter (in_bounds n) (cardinal_neighbours (cell_of n i))"

definition neighbour_indices :: "int \<Rightarrow> nat \<Rightarrow> int list" where
  "neighbour_indices n i = map (flat_index n) (in_bounds_neighbours n i)"

definition on_border :: "int \<Rightarrow> int \<Rightarrow> bool" where
  "on_border n x = (x = 0 \<or> x = n - 1)"

definition is_corner :: "int \<Rightarrow> int \<times> int \<Rightarrow> bool" where
  "is_corner n c = (on_border n (fst c) \<and> on_border n (snd c))"

definition is_edge :: "int \<Rightarrow> int \<times> int \<Rightarrow> bool" where
  "is_edge n c = (on_border n (fst c) \<noteq> on_border n (snd c))"

definition is_interior :: "int \<Rightarrow> int \<times> int \<Rightarrow> bool" where
  "is_interior n c = (\<not> on_border n (fst c) \<and> \<not> on_border n (snd c))"

text \<open>The number of off-diagonal entries \<open>+1\<close> in row \<open>i\<close> of a matrix.\<close>

definition offdiag_ones :: "mat \<Rightarrow> nat \<Rightarrow> nat" where
  "offdiag_ones M i = length (filter (\<lambda>j. j \<noteq> i \<and> M ! i ! j = 1) [0..<length (M ! i)])"

text \<open>Row \<open>i\<close> of the matrix as the loop body leaves it, written with updates of the
  row alone.\<close>

definition row_written :: "nat \<Rightarrow> nat \<Rightarrow> real list \<Rightarrow> real list" where
  "row_written m i row =
     (let r1 = row[i := - 4];
          r2 = (if i mod m = 0 then r1 else r1[i - 1 := 1]);
          r3 = (if i mod m = m - 1 then r2 else r2[i + 1 := 1]);
          r4 = (if i div m = 0 then r3 else r3[i - m := 1])
      in (if i div m = m - 1 then r4 else r4[i + m := 1]))"

text \<open>The absolute difference of the norms before and after sweep number \<open>j + 1\<close> of
  an iteration that starts at \<open>x\<close>, and the number \<open>k\<close> of the sweep after which the
  stopping rule ends an iteration of at most \<open>n\<close> sweeps.\<close>

definition norm_delta :: "(vec \<Rightarrow> vec) \<Rightarrow> vec \<Rightarrow> nat \<Rightarrow> real" where
  "norm_delta sweep x j = \<bar>linalg_norm ((sweep ^^ j) x) - linalg_norm ((sweep ^^ Suc j) x)\<bar>"

definition stops_after :: "(vec \<Rightarrow> vec) \<Rightarrow> real \<Rightarrow> nat \<Rightarrow> vec \<Rightarrow> nat \<Rightarrow> bool" where
  "stops_after sweep tol n x k =
     (1 \<le> k \<and> k \<le> n \<and> (\<forall>j<k - 1. \<not> norm_delta sweep x j < tol)
      \<and> (norm_delta sweep x (k - 1) < tol \<or> k = n))"

text \<open>The sweep that each method runs on a System: the sweep function with the arguments
  the method passes to it. For jacobi and gauss_seidel there is none when
  \<open>np.linalg.inv\<close> fails.\<close>

definition jacobi_step :: "(mat \<Rightarrow> mat option) \<Rightarrow> 'a Grid_scheme \<Rightarrow> (vec \<Rightarrow> vec) option" where
  "jacobi_step linalg_inv S =
     (case jacobi_matrices linalg_inv (fst (method_matrix (Ns S))) (nat ((Ns S) ^ 2)) of
        None \<Rightarrow> None
      | Some Tc \<Rightarrow>
          Some (jacobi_sweep (fst Tc) (snd Tc) (concat (sources S)) (concat (potentials S))))"

definition gauss_seidel_step ::
  "(mat \<Rightarrow> mat option) \<Rightarrow> 'a Grid_scheme \<Rightarrow> (vec \<Rightarrow> vec) option" where
  "gauss_seidel_step linalg_inv S =
     (case gauss_seidel_matrices linalg_inv (fst (method_matrix (Ns S))) (nat ((Ns S) ^ 2)) of
        None \<Rightarrow> None
      | Some Tc \<Rightarrow>
          Some (gauss_seidel_sweep (fst Tc) (snd Tc) (concat (sources S)) (concat (potentials S))))"

definition SOR_step :: "real \<Rightarrow> 'a Grid_scheme \<Rightarrow> vec \<Rightarrow> vec" where
  "SOR_step w S =
     SOR_sweep (nat ((Ns S) ^ 2)) (concat (sources S))
       (np_tril (fst (method_matrix (Ns S))) (- 1)) (np_triu (fst (method_matrix (Ns S))) 1) w
       (np_diagonal (fst (method_matrix (Ns S)))) (replicate (nat ((Ns S) ^ 2)) 0)"

text \<open>The shape of the arrays of a Shape or System: \<open>\<bar>Ns\<bar>\<close> rows of \<open>\<bar>Ns\<bar>\<close> entries.\<close>

definition square :: "nat \<Rightarrow> 'a list list \<Rightarrow> bool" where
  "square k M = (length M = k \<and> (\<forall>row\<in>set M. length row = k))"

definition wf_grid :: "'a Grid_scheme \<Rightarrow> bool" where
  "wf_grid S =
     (Ns S \<noteq> 0 \<and> square (nat \<bar>Ns S\<bar>) (potentials S) \<and> square (nat \<bar>Ns S\<bar>) (sources S)
      \<and> square (nat \<bar>Ns S\<bar>) (source_potentials S))"

text \<open>The invariant of the data model: a source cell holds its source potential.\<close>

definition pinned :: "'a Grid_scheme \<Rightarrow> bool" where
  "pinned S =
     (\<forall>i<length (sources S). \<forall>j<length (sources S ! i).
        sources S ! i ! j \<longrightarrow> potentials S ! i ! j = source_potentials S ! i ! j)"

text \<open>The same for a solution vector \<open>x\<close> over the flattened cells.\<close>

definition pinned_vec :: "'a Grid_scheme \<Rightarrow> vec \<Rightarrow> bool" where
  "pinned_vec S x =
     (length x = length (concat (sources S))
      \<and> (\<forall>k<length (concat (sources S)).
            concat (sources S) ! k \<longrightarrow> x ! k = concat (source_potentials S) ! k))"

text \<open>What a Shape holds: its potential at the cells it marks and zero elsewhere, in
  both arrays.\<close>

definition shape_inv :: "Shape \<Rightarrow> bool" where
  "shape_inv s =
     (wf_grid s
      \<and> (\<forall>i<nat \<bar>Ns s\<bar>. \<forall>j<nat \<bar>Ns s\<bar>.
            potentials s ! i ! j = (if sources s ! i ! j then potential s else 0)
          \<and> source_potentials s ! i ! j = (if sources s ! i ! j then potential s else 0)))"

text \<open>The columns marked in a row of the source mask, and the columns strictly between
  the first and the last of at least two marked ones.\<close>

definition marked :: "bool list \<Rightarrow> nat set" where
  "marked row = set (filter (\<lambda>j. row ! j) [0..<length row])"

definition strictly_between :: "bool list \<Rightarrow> nat \<Rightarrow> bool" where
  "strictly_between row j =
     (2 \<le> card (marked row) \<and> Min (marked row) < j \<and> j < Max (marked row))"

text \<open>\<open>s'\<close> is the Shape \<open>s\<close> with the cells of \<open>F\<close> marked as sources at the potential of
  the Shape, and every other cell as it was.\<close>

definition marked_from :: "Shape \<Rightarrow> (nat \<Rightarrow> nat \<Rightarrow> bool) \<Rightarrow> Shape \<Rightarrow> bool" where
  "marked_from s F s' =
     (wf_grid s' \<and> Ns s' = Ns s \<and> potential s' = potential s
      \<and> (\<forall>i<nat \<bar>Ns s\<bar>. \<forall>j<nat \<bar>Ns s\<bar>.
            sources s' ! i ! j = (sources s ! i ! j \<or> F i j)
          \<and> potentials s' ! i ! j = (if F i j then potential s else potentials s ! i ! j)
          \<and> source_potentials s' ! i ! j =
              (if F i j then potential s else source_potentials s ! i ! j)))"

text \<open>A Shape of grid size \<open>n\<close> and potential \<open>p\<close>.\<close>

definition shape_of :: "int \<Rightarrow> real \<Rightarrow> Shape \<Rightarrow> bool" where
  "shape_of n p s = (shape_inv s \<and> Ns s = n \<and> potential s = p)"

text \<open>The Systems of the life cycle before a solve: a new System, with Shapes added.\<close>

inductive populated :: "System \<Rightarrow> bool" where
  fresh: "System_init v = Inr S \<Longrightarrow> populated S"
| added: "populated S \<Longrightarrow> Shape_init v p origin args kw = Inr (r, out) \<Longrightarrow> add S r = Inr S'
            \<Longrightarrow> populated S'"

text \<open>What is assumed of \<open>np.linalg.inv\<close>: the result has as many rows as the argument;
  and what it means for a result to be the inverse.\<close>

definition keeps_rows :: "(mat \<Rightarrow> mat option) \<Rightarrow> bool" where
  "keeps_rows linalg_inv = (\<forall>M Mi. linalg_inv M = Some Mi \<longrightarrow> length Mi = length M)"

definition identity :: "nat \<Rightarrow> mat" where
  "identity n = map (\<lambda>i. map (\<lambda>j. if i = j then 1 else 0) [0..<n]) [0..<n]"

definition is_inverse :: "mat \<Rightarrow> mat \<Rightarrow> bool" where
  "is_inverse M Mi = (square (length M) Mi \<and> np_dot_mm M Mi = identity (length M))"

section \<open>Properties\<close>

subsection \<open>The matrix of create_method_matrix\<close>

lemma nat_sq: "nat ((int m)\<^sup>2) = m * m"
  by (simp add: power2_eq_square nat_mult_distrib)

lemma coords_nat:
  assumes "0 < m"
  shows "trunc_div i (int m) = int (i div m)" "int i mod int m = int (i mod m)"
  by (simp_all add: trunc_div_def zdiv_int zmod_int)

lemma div_lt: "0 < m \<Longrightarrow> i < m * m \<Longrightarrow> i div m < (m::nat)"
  by (simp add: less_mult_imp_div_less)

lemma flat_lt:
  assumes "r < (m::nat)" "c < m" shows "r * m + c < m * m"
proof -
  have "Suc r * m \<le> m * m" using assms(1) by (intro mult_le_mono1) simp
  then show ?thesis using assms(2) by simp
qed

lemma np_index_nat: "j < N \<Longrightarrow> np_index N (int j) = Some j"
  by (simp add: np_index_def)

lemma assign_one_nat: "j < N \<Longrightarrow> assign_one N i (int j) c st = (set2 (fst st) i j 1, snd st)"
  by (simp add: assign_one_def np_index_nat)

lemma step_left:
  assumes "0 < m" "i < m * m"
  shows "stencil_neighbour (int m) (m * m) i (int (i div m)) (int (i mod m)) st
           (int (i div m), int (i mod m) - 1)
     = (if i mod m = 0 then (fst st, snd st @ [(int (i div m), int (i mod m) - 1)])
        else (set2 (fst st) i (i - 1) 1, snd st))"
proof (cases "i mod m = 0")
  case True
  then show ?thesis by (simp add: stencil_neighbour_def)
next
  case False
  have d: "i div m < m" using assms by (rule div_lt)
  have md: "\<not> m < i mod m" "\<not> int m - 1 < int (i mod m)" "\<not> m \<le> i mod m"
    using assms(1) mod_less_divisor[of m i] by linarith+
  from False have ipos: "0 < i" by (cases i) auto
  then have e: "int i - 1 = int (i - 1)" by simp
  have lt: "i - Suc 0 < m * m" using assms by simp
  show ?thesis using False d md assms
    by (simp add: stencil_neighbour_def Let_def e assign_one_nat[OF lt])
qed

lemma step_right:
  assumes "0 < m" "i < m * m"
  shows "stencil_neighbour (int m) (m * m) i (int (i div m)) (int (i mod m)) st
           (int (i div m), int (i mod m) + 1)
     = (if i mod m = m - 1 then (fst st, snd st @ [(int (i div m), int (i mod m) + 1)])
        else (set2 (fst st) i (i + 1) 1, snd st))"
proof (cases "i mod m = m - 1")
  case True
  have "int (i mod m) + 1 > int m - 1" using True assms by simp
  then show ?thesis using True by (simp add: stencil_neighbour_def)
next
  case False
  have d: "i div m < m" using assms by (rule div_lt)
  have md: "\<not> m < i mod m" "\<not> int m - 1 < int (i mod m)" "\<not> m \<le> i mod m"
    using assms(1) mod_less_divisor[of m i] by linarith+
  have s: "Suc (i mod m) < m" using False assms(1) mod_less_divisor[of m i] by linarith
  have "i div m * m + Suc (i mod m) < m * m" using d s by (rule flat_lt)
  then have lt: "i + 1 < m * m" by simp
  have e: "int i + 1 = int (i + 1)" by simp
  show ?thesis using False d md s assms
    by (simp only: stencil_neighbour_def Let_def e assign_one_nat[OF lt]) simp
qed

lemma step_up:
  assumes "0 < m" "i < m * m"
  shows "stencil_neighbour (int m) (m * m) i (int (i div m)) (int (i mod m)) st
           (int (i div m) - 1, int (i mod m))
     = (if i div m = 0 then (fst st, snd st @ [(int (i div m) - 1, int (i mod m))])
        else (set2 (fst st) i (i - m) 1, snd st))"
proof (cases "i div m = 0")
  case True
  then show ?thesis by (simp add: stencil_neighbour_def)
next
  case False
  have d: "i div m < m" using assms by (rule div_lt)
  have md: "\<not> m < i mod m" "\<not> int m - 1 < int (i mod m)" "\<not> m \<le> i mod m"
    using assms(1) mod_less_divisor[of m i] by linarith+
  from False have ge: "m \<le> i" by (metis div_less linorder_not_less)
  then have e: "int i - int m = int (i - m)" by simp
  have lt: "i - m < m * m" using assms by simp
  show ?thesis using False d md assms
    by (simp only: stencil_neighbour_def Let_def e assign_one_nat[OF lt]) simp
qed

lemma step_down:
  assumes "0 < m" "i < m * m"
  shows "stencil_neighbour (int m) (m * m) i (int (i div m)) (int (i mod m)) st
           (int (i div m) + 1, int (i mod m))
     = (if i div m = m - 1 then (fst st, snd st @ [(int (i div m) + 1, int (i mod m))])
        else (set2 (fst st) i (i + m) 1, snd st))"
proof (cases "i div m = m - 1")
  case True
  have "int (i div m) + 1 > int m - 1" using True assms by simp
  then show ?thesis using True by (simp add: stencil_neighbour_def)
next
  case False
  have d: "i div m < m" using assms by (rule div_lt)
  have md: "\<not> m < i mod m" "\<not> int m - 1 < int (i mod m)" "\<not> m \<le> i mod m"
    using assms(1) mod_less_divisor[of m i] by linarith+
  have s: "Suc (i div m) < m" using False d by linarith
  have "Suc (i div m) * m + i mod m < m * m" using s assms(1) by (intro flat_lt) simp_all
  then have lt: "i + m < m * m" by (simp add: add.commute add.left_commute)
  have e: "int i + int m = int (i + m)" by simp
  show ?thesis using False d md s assms
    by (simp only: stencil_neighbour_def Let_def e assign_one_nat[OF lt]) simp
qed

lemma set2_same: "i < length M \<Longrightarrow> set2 (M[i := R]) i j v = M[i := R[j := v]]"
  by (simp add: set2_def)

lemma set2_first: "set2 M i j v = M[i := (M ! i)[j := v]]"
  by (simp add: set2_def)

lemma stencil_row_eq:
  assumes "0 < m" "i < m * m" "i < length M"
  shows "stencil_row (int m) (m * m) (M, bcs) i =
           (M[i := row_written m i (M ! i)], bcs @ [snd (stencil_row (int m) (m * m) (M, bcs) i) ! length bcs])"
    and "fst (stencil_row (int m) (m * m) (M, bcs) i) = M[i := row_written m i (M ! i)]"
proof -
  show f: "fst (stencil_row (int m) (m * m) (M, bcs) i) = M[i := row_written m i (M ! i)]"
    using assms(3)
    by (simp add: stencil_row_def Let_def coords_nat[OF assms(1)]
          step_left[OF assms(1,2)] step_right[OF assms(1,2)]
          step_up[OF assms(1,2)] step_down[OF assms(1,2)] row_written_def set2_first)
  show "stencil_row (int m) (m * m) (M, bcs) i =
           (M[i := row_written m i (M ! i)], bcs @ [snd (stencil_row (int m) (m * m) (M, bcs) i) ! length bcs])"
    using f by (simp add: stencil_row_def Let_def prod_eq_iff)
qed

lemma fold_rows:
  assumes "0 < m" "k \<le> m * m"
  shows "length (fst (foldl (stencil_row (int m) (m * m)) (np_zeros2 (m * m) (m * m), []) [0..<k])) = m * m
       \<and> (\<forall>i<m * m. fst (foldl (stencil_row (int m) (m * m)) (np_zeros2 (m * m) (m * m), []) [0..<k]) ! i
             = (if i < k then row_written m i (replicate (m * m) 0) else replicate (m * m) 0))"
  using assms(2)
proof (induction k)
  case 0
  then show ?case by (simp add: np_zeros2_def)
next
  case (Suc k)
  let ?st = "foldl (stencil_row (int m) (m * m)) (np_zeros2 (m * m) (m * m), []) [0..<k]"
  from Suc have kl: "k < m * m" and IH1: "length (fst ?st) = m * m"
    and IH2: "\<forall>i<m * m. fst ?st ! i = (if i < k then row_written m i (replicate (m * m) 0) else replicate (m * m) 0)"
    by simp_all
  have st: "?st = (fst ?st, snd ?st)" by simp
  have e: "fst (stencil_row (int m) (m * m) ?st k) = (fst ?st)[k := row_written m k (fst ?st ! k)]"
    using stencil_row_eq(2)[OF assms(1) kl, of "fst ?st" "snd ?st"] IH1 kl by simp
  have k0: "fst ?st ! k = replicate (m * m) 0" using IH2 kl by simp
  show ?case using IH1 IH2 kl
    by (simp add: e k0 nth_list_update less_Suc_eq)
qed

lemma nth_upd: "j < length xs \<Longrightarrow> xs[i := x] ! j = (if i = j then x else xs ! j)"
  by (cases "i = j") simp_all

lemma cond_upd_nth:
  "j < length xs \<Longrightarrow> (if c then xs else xs[k := v]) ! j = (if \<not> c \<and> k = j then v else xs ! j)"
  by (simp add: nth_upd)

lemma cond_upd_length: "length (if c then xs else xs[k := v]) = length xs"
  by simp

lemma row_written_nth_gen:
  assumes "0 < m" "i < m * m" "j < m * m" "length row = m * m" "row ! j = 0"
  shows "row_written m i row ! j =
     (if j = i then - 4
      else if (i mod m \<noteq> 0 \<and> j = i - 1) \<or> (i mod m \<noteq> m - 1 \<and> j = i + 1)
            \<or> (i div m \<noteq> 0 \<and> j = i - m) \<or> (i div m \<noteq> m - 1 \<and> j = i + m) then 1 else 0)"
proof -
  define r1 where "r1 = row[i := - 4]"
  define r2 where "r2 = (if i mod m = 0 then r1 else r1[i - 1 := 1])"
  define r3 where "r3 = (if i mod m = m - 1 then r2 else r2[i + 1 := 1])"
  define r4 where "r4 = (if i div m = 0 then r3 else r3[i - m := 1])"
  define r5 where "r5 = (if i div m = m - 1 then r4 else r4[i + m := 1])"
  have rw: "row_written m i row = r5"
    by (simp add: row_written_def Let_def r1_def r2_def r3_def r4_def r5_def)
  have l1: "j < length r1" using assms by (simp add: r1_def)
  have l2: "j < length r2" using l1 unfolding r2_def cond_upd_length .
  have l3: "j < length r3" using l2 unfolding r3_def cond_upd_length .
  have l4: "j < length r4" using l3 unfolding r4_def cond_upd_length .
  have n1: "r1 ! j = (if i = j then - 4 else 0)"
    using assms by (simp add: r1_def nth_upd)
  have n2: "r2 ! j = (if i mod m \<noteq> 0 \<and> i - 1 = j then 1 else r1 ! j)"
    unfolding r2_def using cond_upd_nth[OF l1, of "i mod m = 0" "i - 1" 1] by simp
  have n3: "r3 ! j = (if i mod m \<noteq> m - 1 \<and> i + 1 = j then 1 else r2 ! j)"
    unfolding r3_def using cond_upd_nth[OF l2, of "i mod m = m - 1" "i + 1" 1] by simp
  have n4: "r4 ! j = (if i div m \<noteq> 0 \<and> i - m = j then 1 else r3 ! j)"
    unfolding r4_def using cond_upd_nth[OF l3, of "i div m = 0" "i - m" 1] by simp
  have n5: "r5 ! j = (if i div m \<noteq> m - 1 \<and> i + m = j then 1 else r4 ! j)"
    unfolding r5_def using cond_upd_nth[OF l4, of "i div m = m - 1" "i + m" 1] by simp
  have a: "i mod m \<noteq> 0 \<Longrightarrow> i - 1 \<noteq> i" by (cases i) auto
  have "i div m \<noteq> 0 \<Longrightarrow> m \<le> i" by (metis div_less linorder_not_less)
  then have b: "i div m \<noteq> 0 \<Longrightarrow> i - m \<noteq> i" using assms(1) by linarith
  have c: "i + m \<noteq> i" "i + 1 \<noteq> i" using assms(1) by simp_all
  show ?thesis
  proof (cases "j = i")
    case True
    then show ?thesis using a b c unfolding rw n5 n4 n3 n2 n1 by auto
  next
    case False
    then show ?thesis unfolding rw n5 n4 n3 n2 n1 by auto
  qed
qed

lemma row_written_nth:
  assumes "0 < m" "i < m * m" "j < m * m"
  shows "row_written m i (replicate (m * m) 0) ! j =
     (if j = i then - 4
      else if (i mod m \<noteq> 0 \<and> j = i - 1) \<or> (i mod m \<noteq> m - 1 \<and> j = i + 1)
            \<or> (i div m \<noteq> 0 \<and> j = i - m) \<or> (i div m \<noteq> m - 1 \<and> j = i + m) then 1 else 0)"
  using assms by (intro row_written_nth_gen) simp_all

lemma cell_of_nat: "cell_of (int m) i = (int (i div m), int (i mod m))"
  by (simp add: cell_of_def zdiv_int zmod_int)

lemma in_bounds_rc:
  assumes "r < m" "c < m"
  shows "in_bounds (int m) (int r, int c - 1) \<longleftrightarrow> c \<noteq> 0"
      "in_bounds (int m) (int r, int c + 1) \<longleftrightarrow> c \<noteq> m - 1"
      "in_bounds (int m) (int r - 1, int c) \<longleftrightarrow> r \<noteq> 0"
      "in_bounds (int m) (int r + 1, int c) \<longleftrightarrow> r \<noteq> m - 1"
  using assms unfolding in_bounds_def fst_conv snd_conv by linarith+

lemma flat_index_rc:
  assumes "int r * int m + int c = int i"
  shows "flat_index (int m) (int r, int c - 1) = int i - 1"
      "flat_index (int m) (int r, int c + 1) = int i + 1"
      "flat_index (int m) (int r - 1, int c) = int i - int m"
      "flat_index (int m) (int r + 1, int c) = int i + int m"
  using assms by (simp_all add: flat_index_def algebra_simps)

lemma filter4:
  "map f (filter P [a, b, c, d]) =
     (if P a then [f a] else []) @ (if P b then [f b] else []) @ (if P c then [f c] else [])
       @ (if P d then [f d] else [])"
  by simp

lemma mem4:
  "x \<in> set ((if p then [a] else []) @ (if q then [b] else []) @ (if r then [c] else [])
       @ (if s then [d] else [])) \<longleftrightarrow> (p \<and> x = a) \<or> (q \<and> x = b) \<or> (r \<and> x = c) \<or> (s \<and> x = d)"
  by auto

lemma neighbour_list:
  assumes "0 < m" "i < m * m"
  shows "neighbour_indices (int m) i =
      (if i mod m \<noteq> 0 then [int i - 1] else []) @ (if i mod m \<noteq> m - 1 then [int i + 1] else [])
      @ (if i div m \<noteq> 0 then [int i - int m] else []) @ (if i div m \<noteq> m - 1 then [int i + int m] else [])"
proof -
  have d: "i div m < m" using assms by (rule div_lt)
  have md: "i mod m < m" using assms by simp
  have fl: "int (i div m) * int m + int (i mod m) = int i"
    by (metis div_mult_mod_eq of_nat_add of_nat_mult)
  note ib = in_bounds_rc[OF d md]
  note f = flat_index_rc[OF fl]
  show ?thesis
    unfolding neighbour_indices_def in_bounds_neighbours_def cell_of_nat cardinal_neighbours_def fst_conv snd_conv
    by (simp only: filter4 ib f)
qed


lemma neighbour_indices_iff:
  assumes "0 < m" "i < m * m"
  shows "int j \<in> set (neighbour_indices (int m) i) \<longleftrightarrow>
     ((i mod m \<noteq> 0 \<and> j = i - 1) \<or> (i mod m \<noteq> m - 1 \<and> j = i + 1)
            \<or> (i div m \<noteq> 0 \<and> j = i - m) \<or> (i div m \<noteq> m - 1 \<and> j = i + m))"
proof -
  have a: "i mod m \<noteq> 0 \<Longrightarrow> 0 < i" by (cases i) auto
  have b: "i div m \<noteq> 0 \<Longrightarrow> m \<le> i" by (metis div_less linorder_not_less)
  have e1: "i mod m \<noteq> 0 \<Longrightarrow> (int j = int i - 1) = (j = i - 1)" using a by linarith
  have e2: "(int j = int i + 1) = (j = i + 1)" by linarith
  have e3: "i div m \<noteq> 0 \<Longrightarrow> (int j = int i - int m) = (j = i - m)" using b by linarith
  have e4: "(int j = int i + int m) = (j = i + m)" by linarith
  have mem: "int j \<in> set (neighbour_indices (int m) i) \<longleftrightarrow>
     ((i mod m \<noteq> 0 \<and> int j = int i - 1) \<or> (i mod m \<noteq> m - 1 \<and> int j = int i + 1)
            \<or> (i div m \<noteq> 0 \<and> int j = int i - int m) \<or> (i div m \<noteq> m - 1 \<and> int j = int i + int m))"
    unfolding neighbour_list[OF assms] by (rule mem4)
  show ?thesis unfolding mem using e1 e2 e3 e4 by blast
qed

lemma method_matrix_nth:
  assumes "0 < m" "i < m * m" "j < m * m"
  shows "fst (method_matrix (int m)) ! i ! j =
     (if j = i then - 4 else if int j \<in> set (neighbour_indices (int m) i) then 1 else 0)"
  using fold_rows[OF assms(1), of "m * m"] assms(2)
  by (simp add: method_matrix_def Let_def nat_sq row_written_nth[OF assms] neighbour_indices_iff[OF assms(1,2)])

lemma method_matrix_dims:
  assumes "0 < m"
  shows "length (fst (method_matrix (int m))) = m * m"
    and "i < m * m \<Longrightarrow> length (fst (method_matrix (int m)) ! i) = m * m"
proof -
  show "length (fst (method_matrix (int m))) = m * m"
    using fold_rows[OF assms(1), of "m * m"] by (simp add: method_matrix_def Let_def nat_sq)
  show "i < m * m \<Longrightarrow> length (fst (method_matrix (int m)) ! i) = m * m"
    using fold_rows[OF assms(1), of "m * m"]
    by (simp add: method_matrix_def Let_def nat_sq row_written_def)
qed

lemma nbr_facts:
  fixes m i :: nat
  assumes "0 < m" "i < m * m"
  shows "i mod m \<noteq> 0 \<Longrightarrow> 0 < i"
    and "i mod m \<noteq> m - 1 \<Longrightarrow> i + 1 < m * m"
    and "i div m \<noteq> 0 \<Longrightarrow> m \<le> i"
    and "i div m \<noteq> m - 1 \<Longrightarrow> i + m < m * m"
proof -
  have d: "i div m < m" using assms by (rule div_lt)
  have md: "i mod m < m" using assms by simp
  show "i mod m \<noteq> 0 \<Longrightarrow> 0 < i" by (cases i) auto
  show "i div m \<noteq> 0 \<Longrightarrow> m \<le> i" by (metis div_less linorder_not_less)
  show "i + 1 < m * m" if "i mod m \<noteq> m - 1"
  proof -
    have s: "Suc (i mod m) < m" using that md by linarith
    have "i div m * m + Suc (i mod m) < m * m" using d s by (rule flat_lt)
    then show ?thesis by simp
  qed
  show "i + m < m * m" if "i div m \<noteq> m - 1"
  proof -
    have s: "Suc (i div m) < m" using that d by linarith
    have "Suc (i div m) * m + i mod m < m * m" using s md by (rule flat_lt)
    then show ?thesis by (simp add: add.commute add.left_commute)
  qed
qed

lemma count4:
  fixes a b c d :: nat
  assumes "p \<Longrightarrow> a < N \<and> a \<noteq> i" "q \<Longrightarrow> b < N \<and> b \<noteq> i"
    "r \<Longrightarrow> c < N \<and> c \<noteq> i" "s \<Longrightarrow> d < N \<and> d \<noteq> i"
    "p \<Longrightarrow> q \<Longrightarrow> a \<noteq> b" "p \<Longrightarrow> r \<Longrightarrow> a \<noteq> c" "p \<Longrightarrow> s \<Longrightarrow> a \<noteq> d"
    "q \<Longrightarrow> r \<Longrightarrow> b \<noteq> c" "q \<Longrightarrow> s \<Longrightarrow> b \<noteq> d" "r \<Longrightarrow> s \<Longrightarrow> c \<noteq> d"
  shows "length (filter (\<lambda>j. j \<noteq> i \<and> ((p \<and> j = a) \<or> (q \<and> j = b) \<or> (r \<and> j = c) \<or> (s \<and> j = d))) [0..<N])
       = (if p then 1 else 0) + (if q then 1 else 0) + (if r then 1 else 0) + (if s then 1 else 0)"
proof -
  let ?P = "\<lambda>j. j \<noteq> i \<and> ((p \<and> j = a) \<or> (q \<and> j = b) \<or> (r \<and> j = c) \<or> (s \<and> j = d))"
  have "length (filter ?P [0..<N]) = card ({j. ?P j} \<inter> set [0..<N])"
    by (rule distinct_length_filter) simp
  also have "{j. ?P j} \<inter> set [0..<N] =
      (if p then {a} else {}) \<union> (if q then {b} else {}) \<union> (if r then {c} else {}) \<union> (if s then {d} else {})"
    using assms(1-4) by auto
  also have "card \<dots> = (if p then 1 else 0) + (if q then 1 else 0) + (if r then 1 else 0) + (if s then 1 else 0)"
    using assms(5-10) by (cases p; cases q; cases r; cases s) simp_all
  finally show ?thesis .
qed


lemma length_neighbours:
  fixes m i :: nat
  assumes "0 < m" "i < m * m"
  shows "length (in_bounds_neighbours (int m) i) =
     (if i mod m \<noteq> 0 then 1 else 0) + (if i mod m \<noteq> m - 1 then 1 else 0)
       + (if i div m \<noteq> 0 then 1 else 0) + (if i div m \<noteq> m - 1 then 1 else 0)"
proof -
  have "length (in_bounds_neighbours (int m) i) = length (neighbour_indices (int m) i)"
    by (simp add: neighbour_indices_def)
  also have "\<dots> = (if i mod m \<noteq> 0 then 1 else 0) + (if i mod m \<noteq> m - 1 then 1 else 0)
       + (if i div m \<noteq> 0 then 1 else 0) + (if i div m \<noteq> m - 1 then 1 else 0)"
    unfolding neighbour_list[OF assms] by simp
  finally show ?thesis .
qed

lemma offdiag_count:
  fixes m i :: nat
  assumes "0 < m" "i < m * m"
  shows "offdiag_ones (fst (method_matrix (int m))) i = length (in_bounds_neighbours (int m) i)"
proof -
  let ?M = "fst (method_matrix (int m))"
  let ?c = "\<lambda>j. (i mod m \<noteq> 0 \<and> j = i - 1) \<or> (i mod m \<noteq> m - 1 \<and> j = i + 1)
            \<or> (i div m \<noteq> 0 \<and> j = i - m) \<or> (i div m \<noteq> m - 1 \<and> j = i + m)"
  note nf = nbr_facts[OF assms]
  have len: "length (?M ! i) = m * m" using method_matrix_dims(2)[OF assms(1,2)] .
  have "filter (\<lambda>j. j \<noteq> i \<and> ?M ! i ! j = 1) [0..<m * m] = filter (\<lambda>j. j \<noteq> i \<and> ?c j) [0..<m * m]"
  proof (rule filter_cong[OF refl])
    fix j assume "j \<in> set [0..<m * m]"
    then have j: "j < m * m" by simp
    show "(j \<noteq> i \<and> ?M ! i ! j = 1) = (j \<noteq> i \<and> ?c j)"
      unfolding method_matrix_nth[OF assms j] neighbour_indices_iff[OF assms] by simp
  qed
  then have "offdiag_ones ?M i = length (filter (\<lambda>j. j \<noteq> i \<and> ?c j) [0..<m * m])"
    by (simp add: offdiag_ones_def len)
  also have "\<dots> = (if i mod m \<noteq> 0 then 1 else 0) + (if i mod m \<noteq> m - 1 then 1 else 0)
       + (if i div m \<noteq> 0 then 1 else 0) + (if i div m \<noteq> m - 1 then 1 else 0)"
  proof (rule count4)
    show "i mod m \<noteq> 0 \<Longrightarrow> i - 1 < m * m \<and> i - 1 \<noteq> i" using nf(1) assms(2) by linarith
    show "i mod m \<noteq> m - 1 \<Longrightarrow> i + 1 < m * m \<and> i + 1 \<noteq> i" using nf(2) by simp
    show "i div m \<noteq> 0 \<Longrightarrow> i - m < m * m \<and> i - m \<noteq> i" using nf(3) assms by linarith
    show "i div m \<noteq> m - 1 \<Longrightarrow> i + m < m * m \<and> i + m \<noteq> i" using nf(4) assms(1) by simp
    show "i mod m \<noteq> 0 \<Longrightarrow> i mod m \<noteq> m - 1 \<Longrightarrow> i - 1 \<noteq> i + 1" by linarith
    show "i mod m \<noteq> 0 \<Longrightarrow> i div m \<noteq> 0 \<Longrightarrow> i - 1 \<noteq> i - m"
    proof -
      assume a: "i mod m \<noteq> 0" "i div m \<noteq> 0"
      then have "m \<noteq> 1" by auto
      then show ?thesis using nf(1)[OF a(1)] nf(3)[OF a(2)] by linarith
    qed
    show "i mod m \<noteq> 0 \<Longrightarrow> i div m \<noteq> m - 1 \<Longrightarrow> i - 1 \<noteq> i + m" using assms(1) by linarith
    show "i mod m \<noteq> m - 1 \<Longrightarrow> i div m \<noteq> 0 \<Longrightarrow> i + 1 \<noteq> i - m" by linarith
    show "i mod m \<noteq> m - 1 \<Longrightarrow> i div m \<noteq> m - 1 \<Longrightarrow> i + 1 \<noteq> i + m"
    proof -
      assume a: "i mod m \<noteq> m - 1"
      then have "m \<noteq> 1" by auto
      then show ?thesis by simp
    qed
    show "i div m \<noteq> 0 \<Longrightarrow> i div m \<noteq> m - 1 \<Longrightarrow> i - m \<noteq> i + m" using assms(1) by linarith
  qed
  finally show ?thesis unfolding length_neighbours[OF assms] .
qed

lemma on_border_nat:
  "0 < m \<Longrightarrow> on_border (int m) (int k) \<longleftrightarrow> k = 0 \<or> k = m - 1"
  unfolding on_border_def by (cases m) auto

lemma neighbours_by_kind:
  fixes m i :: nat
  assumes "2 \<le> m" "i < m * m"
  shows "length (in_bounds_neighbours (int m) i) =
     (if is_interior (int m) (cell_of (int m) i) then 4
      else if is_edge (int m) (cell_of (int m) i) then 3 else 2)"
proof -
  have m: "0 < m" using assms(1) by simp
  have ne: "m - 1 \<noteq> 0" using assms(1) by simp
  show ?thesis
    unfolding length_neighbours[OF m assms(2)] is_interior_def is_edge_def cell_of_nat
      fst_conv snd_conv on_border_nat[OF m]
    using ne by auto
qed

lemma neighbours_single:
  "length (in_bounds_neighbours 1 0) = 0"
  by (simp add: in_bounds_neighbours_def cell_of_def cardinal_neighbours_def in_bounds_def)

subsection \<open>C3: the stencil\<close>

lemma A_create_method_matrix: "A (create_method_matrix S) = Some (fst (method_matrix (Ns S)))"
  by (simp add: create_method_matrix_def Let_def)

text \<open>
  Claim C3, as amended. For every positive \<open>Ns\<close> and every flattened index \<open>i\<close>, the
  matrix built by \<open>create_method_matrix\<close> has \<open>-4\<close> on the diagonal of row \<open>i\<close>; the
  number of off-diagonal entries \<open>+1\<close> of the row is the number of cardinal neighbours of
  the cell \<open>(i div Ns, i mod Ns)\<close> that lie on the grid; every other off-diagonal entry of
  the row is zero, so a neighbour off the grid contributes no entry. For \<open>Ns \<ge> 2\<close> that
  number is 4 for an interior cell, 3 for an edge cell and 2 for a corner cell; for
  \<open>Ns = 1\<close> the only cell has no neighbour on the grid.
\<close>

theorem create_method_matrix_stencil:
  assumes "0 < Ns S" and "i < nat ((Ns S)\<^sup>2)"
  shows "\<exists>M. A (create_method_matrix S) = Some M
     \<and> M ! i ! i = - 4
     \<and> offdiag_ones M i = length (in_bounds_neighbours (Ns S) i)
     \<and> (\<forall>j < nat ((Ns S)\<^sup>2). j \<noteq> i \<longrightarrow>
           M ! i ! j = (if int j \<in> set (neighbour_indices (Ns S) i) then 1 else 0))
     \<and> (2 \<le> Ns S \<longrightarrow> length (in_bounds_neighbours (Ns S) i) =
           (if is_interior (Ns S) (cell_of (Ns S) i) then 4
            else if is_edge (Ns S) (cell_of (Ns S) i) then 3 else 2))
     \<and> (Ns S = 1 \<longrightarrow> length (in_bounds_neighbours (Ns S) i) = 0)"
proof -
  define m where "m = nat (Ns S)"
  have n: "Ns S = int m" and m: "0 < m" using assms(1) by (simp_all add: m_def)
  have i: "i < m * m" using assms(2) unfolding n nat_sq .
  let ?M = "fst (method_matrix (int m))"
  have 1: "?M ! i ! i = - 4" using method_matrix_nth[OF m i i] by simp
  have 2: "offdiag_ones ?M i = length (in_bounds_neighbours (int m) i)"
    using offdiag_count[OF m i] .
  have 3: "\<forall>j < m * m. j \<noteq> i \<longrightarrow>
           ?M ! i ! j = (if int j \<in> set (neighbour_indices (int m) i) then 1 else 0)"
    using method_matrix_nth[OF m i] by simp
  have 4: "2 \<le> int m \<longrightarrow> length (in_bounds_neighbours (int m) i) =
           (if is_interior (int m) (cell_of (int m) i) then 4
            else if is_edge (int m) (cell_of (int m) i) then 3 else 2)"
    using neighbours_by_kind[OF _ i] by simp
  have 5: "int m = 1 \<longrightarrow> length (in_bounds_neighbours (int m) i) = 0"
    using i neighbours_single by auto
  show ?thesis unfolding A_create_method_matrix n nat_sq using 1 2 3 4 5 by blast
qed

text \<open>The theorem at the centre cell of the 3 by 3 grid.\<close>

theorem create_method_matrix_stencil_witness:
  "\<exists>M. A (create_method_matrix
            \<lparr>Ns = 3, h = 1 / 3, potentials = np_zeros2 3 3,
             sources = replicate 3 (replicate 3 False), source_potentials = np_zeros2 3 3,
             A = None, boundary_conditions = None\<rparr>) = Some M
     \<and> M ! 4 ! 4 = - 4 \<and> offdiag_ones M 4 = 4 \<and> M ! 4 ! 1 = 1 \<and> M ! 4 ! 0 = 0"
proof -
  let ?S = "\<lparr>Ns = 3, h = 1 / 3, potentials = np_zeros2 3 3,
             sources = replicate 3 (replicate 3 False), source_potentials = np_zeros2 3 3,
             A = None, boundary_conditions = None\<rparr>"
  have a: "(0::int) < Ns ?S" "(4::nat) < nat ((Ns ?S)\<^sup>2)" by simp_all
  have nb: "in_bounds_neighbours 3 4 = [(1, 0), (1, 2), (0, 1), (2, 1)]"
    by (simp add: in_bounds_neighbours_def cell_of_def cardinal_neighbours_def in_bounds_def)
  have ni: "neighbour_indices 3 4 = [3, 5, 1, 7]"
    by (simp add: neighbour_indices_def nb flat_index_def)
  from create_method_matrix_stencil[OF a] obtain M where
    M: "A (create_method_matrix ?S) = Some M" "M ! 4 ! 4 = - 4"
      "offdiag_ones M 4 = length (in_bounds_neighbours (Ns ?S) 4)"
      "\<forall>j < nat ((Ns ?S)\<^sup>2). j \<noteq> 4 \<longrightarrow>
           M ! 4 ! j = (if int j \<in> set (neighbour_indices (Ns ?S) 4) then 1 else 0)"
    by blast
  have "M ! 4 ! 1 = 1" using M(4)[rule_format, of 1] by (simp add: ni)
  moreover have "M ! 4 ! 0 = 0" using M(4)[rule_format, of 0] by (simp add: ni)
  moreover have "offdiag_ones M 4 = 4" using M(3) by (simp add: nb)
  ultimately show ?thesis using M(1,2) by blast
qed

lemma method_matrix_1: "fst (method_matrix 1) = [[- 4]]"
  by (simp add: method_matrix_def Let_def np_zeros2_def stencil_row_def stencil_neighbour_def
      set2_def trunc_div_def)

text \<open>
  Claim C3 as stated fails for \<open>Ns = 1\<close>: the only cell is a corner cell, and its row has
  no off-diagonal entry rather than two.
\<close>

theorem single_cell_counterexample:
  "is_corner 1 (cell_of 1 0)
   \<and> A (create_method_matrix
            \<lparr>Ns = 1, h = 1, potentials = np_zeros2 1 1,
             sources = replicate 1 (replicate 1 False), source_potentials = np_zeros2 1 1,
             A = None, boundary_conditions = None\<rparr>) = Some [[- 4]]
   \<and> offdiag_ones [[- 4]] 0 = 0"
  by (simp add: A_create_method_matrix method_matrix_1 is_corner_def cell_of_def on_border_def
      offdiag_ones_def)

subsection \<open>C2: the SOR sweep\<close>

lemma foldl_plus_sum:
  fixes f :: "nat \<Rightarrow> real"
  shows "foldl (\<lambda>s j. s + f j) a [m..<n] = a + sum f {m..<n}"
proof (induction n arbitrary: a)
  case 0
  then show ?case by simp
next
  case (Suc n)
  show ?case
  proof (cases "m \<le> n")
    case True
    then show ?thesis using Suc by (simp add: sum.atLeastLessThan_Suc)
  next
    case False
    then show ?thesis by simp
  qed
qed

lemma SOR_cell_length: "length (SOR_cell N srcs L U w D b x k) = length x"
  by (simp add: SOR_cell_def Let_def)

lemma SOR_cell_other: "j \<noteq> k \<Longrightarrow> SOR_cell N srcs L U w D b x k ! j = x ! j"
  by (simp add: SOR_cell_def Let_def)

lemma SOR_cell_at:
  assumes "k < length x"
  shows "SOR_cell N srcs L U w D b x k ! k =
     (if srcs ! k then x ! k
      else (1 - w) * x ! k + (w / D ! k) *
             (b ! k - (\<Sum>j = 0..<k. L ! k ! j * x ! j) - (\<Sum>j = Suc k..<N. U ! k ! j * x ! j)))"
  using assms by (simp add: SOR_cell_def Let_def foldl_plus_sum)

lemma SOR_prefix:
  assumes "k \<le> N" "length x = N"
  shows "length (foldl (SOR_cell N srcs L U w D b) x [0..<k]) = N
     \<and> (\<forall>j. k \<le> j \<longrightarrow> foldl (SOR_cell N srcs L U w D b) x [0..<k] ! j = x ! j)
     \<and> (\<forall>j<k. foldl (SOR_cell N srcs L U w D b) x [0..<k] ! j =
          (if srcs ! j then x ! j
           else (1 - w) * x ! j + (w / D ! j) *
             (b ! j - (\<Sum>l = 0..<j. L ! j ! l * foldl (SOR_cell N srcs L U w D b) x [0..<k] ! l)
                    - (\<Sum>l = Suc j..<N. U ! j ! l * x ! l))))"
  using assms(1)
proof (induction k)
  case 0
  then show ?case using assms(2) by simp
next
  case (Suc k)
  define xk where "xk = foldl (SOR_cell N srcs L U w D b) x [0..<k]"
  define xs where "xs = foldl (SOR_cell N srcs L U w D b) x [0..<Suc k]"
  have xs: "xs = SOR_cell N srcs L U w D b xk k" by (simp add: xs_def xk_def)
  from Suc have kN: "k < N" and len: "length xk = N"
    and old: "\<And>j. k \<le> j \<Longrightarrow> xk ! j = x ! j"
    and new: "\<And>j. j < k \<Longrightarrow> xk ! j =
          (if srcs ! j then x ! j
           else (1 - w) * x ! j + (w / D ! j) *
             (b ! j - (\<Sum>l = 0..<j. L ! j ! l * xk ! l) - (\<Sum>l = Suc j..<N. U ! j ! l * x ! l)))"
    by (simp_all add: xk_def)
  have keep: "\<And>j. j \<noteq> k \<Longrightarrow> xs ! j = xk ! j"
    unfolding xs by (rule SOR_cell_other)
  have s1: "\<And>j. j \<le> k \<Longrightarrow> (\<Sum>l = 0..<j. L ! j ! l * xs ! l) = (\<Sum>l = 0..<j. L ! j ! l * xk ! l)"
    by (rule sum.cong) (simp_all add: keep)
  have s2: "(\<Sum>l = Suc k..<N. U ! k ! l * xk ! l) = (\<Sum>l = Suc k..<N. U ! k ! l * x ! l)"
    by (rule sum.cong) (simp_all add: old)
  have at: "xs ! k =
          (if srcs ! k then x ! k
           else (1 - w) * x ! k + (w / D ! k) *
             (b ! k - (\<Sum>l = 0..<k. L ! k ! l * xs ! l) - (\<Sum>l = Suc k..<N. U ! k ! l * x ! l)))"
    unfolding s1[OF order_refl] unfolding xs using SOR_cell_at[of k xk N srcs L U w D b] kN len
    by (simp add: s2 old)
  have 1: "length xs = N" unfolding xs SOR_cell_length len ..
  have 2: "\<forall>j. Suc k \<le> j \<longrightarrow> xs ! j = x ! j" using keep old by simp
  have 3: "\<forall>j<Suc k. xs ! j =
          (if srcs ! j then x ! j
           else (1 - w) * x ! j + (w / D ! j) *
             (b ! j - (\<Sum>l = 0..<j. L ! j ! l * xs ! l) - (\<Sum>l = Suc j..<N. U ! j ! l * x ! l)))"
  proof (intro allI impI)
    fix j assume "j < Suc k"
    then consider "j < k" | "j = k" by linarith
    then show "xs ! j =
          (if srcs ! j then x ! j
           else (1 - w) * x ! j + (w / D ! j) *
             (b ! j - (\<Sum>l = 0..<j. L ! j ! l * xs ! l) - (\<Sum>l = Suc j..<N. U ! j ! l * x ! l)))"
    proof cases
      case 1
      then show ?thesis using new[OF 1] keep[of j] s1[of j] by simp
    next
      case 2
      then show ?thesis using at by simp
    qed
  qed
  show ?case using 1 2 3 unfolding xs_def by blast
qed

text \<open>
  Claim C2. One sweep of \<open>SOR_sub_func\<close> is the loop body \<open>SOR_cell\<close> run over the cells
  \<open>k = 0, ..., N - 1\<close> in increasing order. A cell of the source mask is never written: at
  every stage of the sweep it holds what it held before. Any other cell \<open>k\<close> ends as
  \<open>(1 - w) * x[k] + (w / D[k]) * (b[k] - s1 - s2)\<close>, where \<open>s1\<close> sums \<open>L[k,j] * x[j]\<close> over
  \<open>j < k\<close> with the entries the sweep has already written, and \<open>s2\<close> sums \<open>U[k,j] * x[j]\<close> over
  \<open>j > k\<close> with the entries from before the sweep. The diagonal is assumed non-zero where it
  is divided by, as it is in \<open>SOR\<close>.
\<close>

theorem SOR_sweep_in_index_order:
  assumes "length x = N" and "\<forall>k<N. \<not> srcs ! k \<longrightarrow> D ! k \<noteq> 0"
  shows "fst (SOR_sub_func 1 x N srcs L U w D b tol verbose) = SOR_sweep N srcs L U w D b x
     \<and> SOR_sweep N srcs L U w D b x = foldl (SOR_cell N srcs L U w D b) x [0..<N]
     \<and> length (SOR_sweep N srcs L U w D b x) = N
     \<and> (\<forall>k'\<le>N. \<forall>k<N. srcs ! k \<longrightarrow> foldl (SOR_cell N srcs L U w D b) x [0..<k'] ! k = x ! k)
     \<and> (\<forall>k<N. SOR_sweep N srcs L U w D b x ! k =
          (if srcs ! k then x ! k
           else (1 - w) * x ! k + (w / D ! k) *
             (b ! k - (\<Sum>j = 0..<k. L ! k ! j * SOR_sweep N srcs L U w D b x ! j)
                    - (\<Sum>j = Suc k..<N. U ! k ! j * x ! j))))"
proof -
  have 1: "fst (SOR_sub_func 1 x N srcs L U w D b tol verbose) = SOR_sweep N srcs L U w D b x"
    by (simp add: SOR_sub_func_def Let_def)
  have 2: "SOR_sweep N srcs L U w D b x = foldl (SOR_cell N srcs L U w D b) x [0..<N]"
    by (simp add: SOR_sweep_def)
  note P = SOR_prefix[OF order_refl assms(1), of srcs L U w D b]
  have 3: "length (SOR_sweep N srcs L U w D b x) = N" unfolding 2 using P by blast
  have 4: "\<forall>k'\<le>N. \<forall>k<N. srcs ! k \<longrightarrow> foldl (SOR_cell N srcs L U w D b) x [0..<k'] ! k = x ! k"
  proof (intro allI impI)
    fix k' k assume k': "k' \<le> N" and k: "k < N" and s: "srcs ! k"
    note Q = SOR_prefix[OF k' assms(1), of srcs L U w D b]
    show "foldl (SOR_cell N srcs L U w D b) x [0..<k'] ! k = x ! k"
    proof (cases "k < k'")
      case True
      then show ?thesis using Q s by simp
    next
      case False
      then show ?thesis using Q by simp
    qed
  qed
  have 5: "\<forall>k<N. SOR_sweep N srcs L U w D b x ! k =
          (if srcs ! k then x ! k
           else (1 - w) * x ! k + (w / D ! k) *
             (b ! k - (\<Sum>j = 0..<k. L ! k ! j * SOR_sweep N srcs L U w D b x ! j)
                    - (\<Sum>j = Suc k..<N. U ! k ! j * x ! j)))"
    unfolding 2 using P by blast
  show ?thesis using 1 2 3 4 5 by blast
qed

text \<open>A sweep over two cells, the first a source.\<close>

theorem SOR_sweep_in_index_order_witness:
  "length (SOR_sweep 2 [True, False] [[0, 0], [1, 0]] [[0, 1], [0, 0]] 1 [- 4, - 4] [0, 0] [4, 8]) = 2
   \<and> SOR_sweep 2 [True, False] [[0, 0], [1, 0]] [[0, 1], [0, 0]] 1 [- 4, - 4] [0, 0] [4, 8] ! 0 = 4
   \<and> SOR_sweep 2 [True, False] [[0, 0], [1, 0]] [[0, 1], [0, 0]] 1 [- 4, - 4] [0, 0] [4, 8] ! 1 = 1"
proof -
  let ?r = "SOR_sweep 2 [True, False] [[0, 0], [1, 0]] [[0, 1], [0, 0]] 1 [- 4, - 4] [0, 0] [4, 8]"
  have a: "length [4, 8 :: real] = 2" by simp
  have b: "\<forall>k<2. \<not> [True, False] ! k \<longrightarrow> [- 4, - 4 :: real] ! k \<noteq> 0"
    by (simp add: less_Suc_eq numeral_2_eq_2)
  note T = SOR_sweep_in_index_order[OF a b, of "[[0, 0], [1, 0]]" "[[0, 1], [0, 0]]" 1 "[0, 0]"]
  from T have l: "length ?r = 2" by blast
  from T have c: "\<forall>k<2. ?r ! k =
          (if [True, False] ! k then [4, 8] ! k
           else (1 - 1) * [4, 8] ! k + (1 / [- 4, - 4] ! k) *
             ([0, 0] ! k - (\<Sum>j = 0..<k. [[0, 0], [1, 0]] ! k ! j * ?r ! j)
                    - (\<Sum>j = Suc k..<2. [[0, 1], [0, 0]] ! k ! j * [4, 8] ! j)))" by blast
  have r0: "?r ! 0 = 4" using c[rule_format, of 0] by simp
  have r1: "?r ! 1 = 1" using c[rule_format, of 1] r0 by simp
  show ?thesis using l r0 r1 by blast
qed

subsection \<open>The relaxation loop and the three methods\<close>

lemma norm_delta_shift: "norm_delta sweep (sweep x) j = norm_delta sweep x (Suc j)"
  by (simp add: norm_delta_def funpow_swap1)

lemma norm_delta_0: "norm_delta sweep x 0 = \<bar>linalg_norm x - linalg_norm (sweep x)\<bar>"
  by (simp add: norm_delta_def)

lemma relax_loop_stops:
  assumes "0 < n"
  shows "\<exists>k. stops_after sweep tol n x k
           \<and> relax_loop sweep tol verbose i n x =
               ((sweep ^^ k) x,
                if verbose then map (\<lambda>j. IterDiff (i + j) (norm_delta sweep x j)) [0..<k] else [])"
  using assms
proof (induction n arbitrary: x i)
  case 0
  then show ?case by simp
next
  case (Suc n)
  show ?case
  proof (cases "norm_delta sweep x 0 < tol")
    case True
    have "stops_after sweep tol (Suc n) x 1" using True by (simp add: stops_after_def)
    moreover have "relax_loop sweep tol verbose i (Suc n) x =
               ((sweep ^^ 1) x,
                if verbose then map (\<lambda>j. IterDiff (i + j) (norm_delta sweep x j)) [0..<1] else [])"
      using True by (simp add: Let_def norm_delta_0)
    ultimately show ?thesis by blast
  next
    case False
    show ?thesis
    proof (cases n)
      case 0
      have "stops_after sweep tol (Suc n) x 1" using 0 by (simp add: stops_after_def)
      moreover have "relax_loop sweep tol verbose i (Suc n) x =
               ((sweep ^^ 1) x,
                if verbose then map (\<lambda>j. IterDiff (i + j) (norm_delta sweep x j)) [0..<1] else [])"
        using False 0 by (simp add: Let_def norm_delta_0)
      ultimately show ?thesis by blast
    next
      case (Suc n')
      then have "0 < n" by simp
      from Suc.IH[OF this, of "sweep x" "Suc i"] obtain k where
        k: "stops_after sweep tol n (sweep x) k"
        and r: "relax_loop sweep tol verbose (Suc i) n (sweep x) =
               ((sweep ^^ k) (sweep x),
                if verbose then map (\<lambda>j. IterDiff (Suc i + j) (norm_delta sweep (sweep x) j)) [0..<k] else [])"
        by blast
      have s: "stops_after sweep tol (Suc n) x (Suc k)"
      proof -
        from k have k1: "1 \<le> k" "k \<le> n"
          and nc: "\<forall>j<k - 1. \<not> norm_delta sweep x (Suc j) < tol"
          and fin0: "norm_delta sweep x (Suc (k - 1)) < tol \<or> k = n"
          unfolding stops_after_def norm_delta_shift by blast+
        have "Suc (k - 1) = k" using k1 by simp
        with fin0 have fin: "norm_delta sweep x k < tol \<or> k = n" by simp
        have "\<forall>j<k. \<not> norm_delta sweep x j < tol"
        proof (intro allI impI)
          fix j assume "j < k"
          show "\<not> norm_delta sweep x j < tol"
          proof (cases j)
            case 0 then show ?thesis using False by simp
          next
            case (Suc j')
            then have "j' < k - 1" using \<open>j < k\<close> by simp
            then show ?thesis using nc Suc by simp
          qed
        qed
        moreover have "norm_delta sweep x k < tol \<or> Suc k = Suc n" using fin by simp
        ultimately show ?thesis using k1 by (simp add: stops_after_def)
      qed
      have m: "map (\<lambda>j. IterDiff (i + j) (norm_delta sweep x j)) [0..<Suc k] =
          IterDiff i (norm_delta sweep x 0) # map (\<lambda>j. IterDiff (Suc i + j) (norm_delta sweep (sweep x) j)) [0..<k]"
        by (simp add: upt_conv_Cons map_Suc_upt[symmetric] norm_delta_shift del: upt_Suc)
      have "relax_loop sweep tol verbose i (Suc n) x =
               ((sweep ^^ Suc k) x,
                if verbose then map (\<lambda>j. IterDiff (i + j) (norm_delta sweep x j)) [0..<Suc k] else [])"
        unfolding m using False r by (simp add: Let_def norm_delta_0 funpow_swap1)
      then show ?thesis using s by blast
    qed
  qed
qed

lemma stops_after_unique:
  assumes "stops_after sweep tol n x k" "stops_after sweep tol n x k'"
  shows "k = k'"
proof (rule ccontr)
  assume ne: "k \<noteq> k'"
  have aux: "False" if a: "stops_after sweep tol n x a" and b: "stops_after sweep tol n x b" and lt: "a < b" for a b
  proof -
    from a have a1: "1 \<le> a" and fa: "norm_delta sweep x (a - 1) < tol \<or> a = n" by (simp_all add: stops_after_def)
    from b have bn: "b \<le> n" and nb: "\<forall>j<b - 1. \<not> norm_delta sweep x j < tol" by (simp_all add: stops_after_def)
    have "a - 1 < b - 1" using a1 lt by simp
    then have "\<not> norm_delta sweep x (a - 1) < tol" using nb by simp
    then have "a = n" using fa by simp
    then show False using lt bn by simp
  qed
  from ne consider "k < k'" | "k' < k" by linarith
  then show False using aux assms by cases blast+
qed

lemma chunks_length: "length (chunks m n xs) = m"
  by (induction m arbitrary: xs) simp_all

lemma chunks_concat: "length xs = m * n \<Longrightarrow> concat (chunks m n xs) = xs"
proof (induction m arbitrary: xs)
  case 0
  then show ?case by simp
next
  case (Suc m)
  have "length (drop n xs) = m * n" using Suc.prems by simp
  from Suc.IH[OF this] show ?case by simp
qed

lemma chunks_rows: "length xs = m * n \<Longrightarrow> \<forall>row\<in>set (chunks m n xs). length row = n"
proof (induction m arbitrary: xs)
  case 0
  then show ?case by simp
next
  case (Suc m)
  have "length (drop n xs) = m * n" using Suc.prems by simp
  from Suc.IH[OF this] Suc.prems show ?case by simp
qed

lemma chunks_square: "length xs = k * k \<Longrightarrow> square k (chunks k k xs)"
  unfolding square_def using chunks_length[of k k xs] chunks_rows[of xs k k] by blast

lemma concat_length_uniform:
  "\<forall>row\<in>set M. length row = n \<Longrightarrow> length (concat M) = length M * n"
  by (induction M) simp_all

lemma concat_nth_uniform:
  "\<forall>row\<in>set M. length row = n \<Longrightarrow> i < length M \<Longrightarrow> j < n \<Longrightarrow> concat M ! (i * n + j) = M ! i ! j"
proof (induction M arbitrary: i)
  case Nil
  then show ?case by simp
next
  case (Cons row M)
  show ?case
  proof (cases i)
    case 0
    then show ?thesis using Cons.prems by (simp add: nth_append)
  next
    case (Suc i')
    have "concat M ! (i' * n + j) = M ! i' ! j" using Cons.IH[of i'] Cons.prems Suc by simp
    moreover have "n + i' * n + j - length row = i' * n + j" using Cons.prems by simp
    ultimately show ?thesis using Cons.prems Suc by (simp add: nth_append)
  qed
qed

lemma chunks_nth:
  assumes "length xs = m * n" "i < m" "j < n"
  shows "chunks m n xs ! i ! j = xs ! (i * n + j)"
proof -
  have "concat (chunks m n xs) ! (i * n + j) = chunks m n xs ! i ! j"
    using chunks_rows[OF assms(1)] assms(2,3) by (intro concat_nth_uniform) (simp_all add: chunks_length)
  then show ?thesis by (simp add: chunks_concat[OF assms(1)])
qed


lemma np_reshape_square:
  assumes "0 < n" "length x = nat n * nat n"
  shows "np_reshape n x = Some (chunks (nat n) (nat n) x)"
proof -
  have pos: "0 < nat n" using assms(1) by simp
  then have "x \<noteq> []" using assms(2) by auto
  moreover have "length x mod nat n = 0" "length x div nat n = nat n"
    using assms(2) pos by simp_all
  ultimately show ?thesis using assms(1) by (simp add: np_reshape_def)
qed

lemma np_reshape_neg: "n \<le> 0 \<Longrightarrow> np_reshape n x = None"
  by (simp add: np_reshape_def)

lemma mask_assign_length: "length (mask_assign msk orig_x x) = length x"
  by (simp add: mask_assign_def)

lemma mask_assign_nth:
  "k < length x \<Longrightarrow> mask_assign msk orig_x x ! k = (if msk ! k then orig_x ! k else x ! k)"
  by (simp add: mask_assign_def)

lemma start_vector_length: "length (start_vector rnd S) = length (concat (potentials S))"
  by (simp add: start_vector_def Let_def mask_assign_length)

lemma start_vector_nth:
  "k < length (concat (potentials S)) \<Longrightarrow>
   start_vector rnd S ! k =
     (if concat (sources S) ! k then concat (potentials S) ! k else rnd k)"
  by (simp add: start_vector_def Let_def mask_assign_nth)

lemma jacobi_sweep_length:
  "length (jacobi_sweep T c srcs orig_x x) = min (length T) (length c)"
  by (simp add: jacobi_sweep_def mask_assign_length vec_add_def np_dot_mv_def)

lemma gauss_seidel_sweep_length:
  "length (gauss_seidel_sweep T c srcs orig_x x) = min (length T) (length c)"
  by (simp add: gauss_seidel_sweep_def mask_assign_length vec_add_def np_dot_mv_def)

lemma SOR_sweep_length: "length (SOR_sweep N srcs L U w D b x) = length x"
proof -
  have "length (foldl (SOR_cell N srcs L U w D b) x ks) = length x" for ks
    by (induction ks arbitrary: x) (simp_all add: SOR_cell_length)
  then show ?thesis by (simp add: SOR_sweep_def)
qed

lemma jacobi_sweep_nth:
  "k < length T \<Longrightarrow> k < length c \<Longrightarrow>
   jacobi_sweep T c srcs orig_x x ! k =
     (if srcs ! k then orig_x ! k else np_dot_mv T x ! k + c ! k)"
  by (simp add: jacobi_sweep_def mask_assign_nth vec_add_def np_dot_mv_def)

lemma gauss_seidel_sweep_nth:
  "k < length T \<Longrightarrow> k < length c \<Longrightarrow>
   gauss_seidel_sweep T c srcs orig_x x ! k =
     (if srcs ! k then orig_x ! k else np_dot_mv T x ! k + c ! k)"
  by (simp add: gauss_seidel_sweep_def mask_assign_nth vec_add_def np_dot_mv_def)

lemma SOR_sweep_source:
  assumes "length x = N" "k < N" "srcs ! k"
  shows "SOR_sweep N srcs L U w D b x ! k = x ! k"
  using SOR_prefix[OF order_refl assms(1), of srcs L U w D b] assms(2,3)
  by (simp add: SOR_sweep_def)

lemma stencil_neighbour_length:
  "length (fst (stencil_neighbour n N i c1 c2 st c)) = length (fst st)"
  by (simp add: stencil_neighbour_def Let_def assign_one_def set2_def split: option.splits)

lemma stencil_row_length: "length (fst (stencil_row n N st i)) = length (fst st)"
  by (simp add: stencil_row_def Let_def stencil_neighbour_length set2_def)

lemma method_matrix_length: "length (fst (method_matrix n)) = nat (n\<^sup>2)"
proof -
  have "length (fst (foldl (stencil_row n N) st xs)) = length (fst st)" for N st xs
    by (induction xs arbitrary: st) (simp_all add: stencil_row_length)
  then show ?thesis by (simp add: method_matrix_def Let_def np_zeros2_def)
qed

lemma nat_sq_abs: "nat (n\<^sup>2) = nat \<bar>n\<bar> * nat \<bar>n\<bar>"
  by (metis nat_mult_distrib abs_ge_zero power2_abs power2_eq_square)

lemma jacobi_matrices_rows:
  assumes "keeps_rows linalg_inv" "jacobi_matrices linalg_inv Am N = Some (T, c)"
  shows "length T = length Am" "length c = length Am"
proof -
  from assms(2) obtain Di where Di: "linalg_inv (np_diag_diag Am) = Some Di"
    and T: "T = mat_neg (np_dot_mm Di (mat_add (np_tril Am (- 1)) (np_triu Am 1)))"
    and c: "c = np_dot_mv Di (replicate N 0)"
    by (auto simp: jacobi_matrices_def Let_def split: option.splits)
  have "length Di = length (np_diag_diag Am)" using assms(1) Di by (simp add: keeps_rows_def)
  then have l: "length Di = length Am" by (simp add: np_diag_diag_def)
  show "length T = length Am" using l by (simp add: T mat_neg_def np_dot_mm_def)
  show "length c = length Am" using l by (simp add: c np_dot_mv_def)
qed

lemma gauss_seidel_matrices_rows:
  assumes "keeps_rows linalg_inv" "gauss_seidel_matrices linalg_inv Am N = Some (T, c)"
  shows "length T = length Am" "length c = length Am"
proof -
  from assms(2) obtain Li where Li: "linalg_inv (mat_add (np_tril Am (- 1)) (np_diag_diag Am)) = Some Li"
    and T: "T = mat_neg (np_dot_mm Li (np_triu Am 1))"
    and c: "c = np_dot_mv Li (replicate N 0)"
    by (auto simp: gauss_seidel_matrices_def Let_def split: option.splits)
  have "length Li = length (mat_add (np_tril Am (- 1)) (np_diag_diag Am))"
    using assms(1) Li by (simp add: keeps_rows_def)
  then have l: "length Li = length Am" by (simp add: np_diag_diag_def mat_add_def np_tril_def)
  show "length T = length Am" using l by (simp add: T mat_neg_def np_dot_mm_def)
  show "length c = length Am" using l by (simp add: c np_dot_mv_def)
qed

lemma create_method_matrix_fields:
  "Ns (create_method_matrix S) = Ns S" "h (create_method_matrix S) = h S"
  "potentials (create_method_matrix S) = potentials S"
  "sources (create_method_matrix S) = sources S"
  "source_potentials (create_method_matrix S) = source_potentials S"
  by (simp_all add: create_method_matrix_def Let_def)

lemma start_vector_create: "start_vector rnd (create_method_matrix S) = start_vector rnd S"
  by (simp add: start_vector_def create_method_matrix_fields)

lemma jacobi_unfold:
  "jacobi linalg_inv rnd tol max_iter verbose S =
     (case jacobi_step linalg_inv S of
        None \<Rightarrow> Inl LinAlgError
      | Some sw \<Rightarrow>
          store_potentials (create_method_matrix S)
            (fst (relax_loop sw tol verbose 0 (nat max_iter) (start_vector rnd S)))
            ([Text ''Jacobi: finished creating matrices''] @
             snd (relax_loop sw tol verbose 0 (nat max_iter) (start_vector rnd S))))"
  by (simp add: jacobi_def jacobi_step_def Let_def A_create_method_matrix
      create_method_matrix_fields start_vector_create split: option.splits prod.splits)

lemma gauss_seidel_unfold:
  "gauss_seidel linalg_inv rnd tol max_iter verbose S =
     (case gauss_seidel_step linalg_inv S of
        None \<Rightarrow> Inl LinAlgError
      | Some sw \<Rightarrow>
          store_potentials (create_method_matrix S)
            (fst (relax_loop sw tol verbose 0 (nat max_iter) (start_vector rnd S)))
            ([Text ''Gauss Seidel: finished creating matrices''] @
             snd (relax_loop sw tol verbose 0 (nat max_iter) (start_vector rnd S))))"
  by (simp add: gauss_seidel_def gauss_seidel_step_def Let_def A_create_method_matrix
      create_method_matrix_fields start_vector_create split: option.splits prod.splits)

lemma SOR_unfold:
  "SOR rnd w tol max_iter verbose S =
     store_potentials (create_method_matrix S)
       (fst (relax_loop (SOR_step w S) tol verbose 0 (nat max_iter) (start_vector rnd S)))
       ([] @ snd (relax_loop (SOR_step w S) tol verbose 0 (nat max_iter) (start_vector rnd S)))"
  by (simp add: SOR_def SOR_sub_func_def SOR_step_def Let_def A_create_method_matrix
      create_method_matrix_fields start_vector_create)

lemma funpow_length:
  fixes sweep :: "vec \<Rightarrow> vec"
  assumes "\<And>x. length x = N \<Longrightarrow> length (sweep x) = N" "length x = N"
  shows "length ((sweep ^^ k) x) = N"
  using assms by (induction k) simp_all

lemma wf_grid_concat:
  assumes "wf_grid S"
  shows "length (concat (potentials S)) = nat ((Ns S)\<^sup>2)"
    "length (concat (sources S)) = nat ((Ns S)\<^sup>2)"
    "length (concat (source_potentials S)) = nat ((Ns S)\<^sup>2)"
proof -
  let ?k = "nat \<bar>Ns S\<bar>"
  from assms have p: "length (potentials S) = ?k" "\<forall>row\<in>set (potentials S). length row = ?k"
    and s: "length (sources S) = ?k" "\<forall>row\<in>set (sources S). length row = ?k"
    and q: "length (source_potentials S) = ?k" "\<forall>row\<in>set (source_potentials S). length row = ?k"
    unfolding wf_grid_def square_def by blast+
  show "length (concat (potentials S)) = nat ((Ns S)\<^sup>2)"
    using concat_length_uniform[OF p(2)] p(1) by (simp add: nat_sq_abs)
  show "length (concat (sources S)) = nat ((Ns S)\<^sup>2)"
    using concat_length_uniform[OF s(2)] s(1) by (simp add: nat_sq_abs)
  show "length (concat (source_potentials S)) = nat ((Ns S)\<^sup>2)"
    using concat_length_uniform[OF q(2)] q(1) by (simp add: nat_sq_abs)
qed

lemma store_after_loop:
  assumes "0 < Ns S1" "0 < n"
    "\<And>x. length x = nat ((Ns S1)\<^sup>2) \<Longrightarrow> length (sweep x) = nat ((Ns S1)\<^sup>2)"
    "length x0 = nat ((Ns S1)\<^sup>2)"
  shows "\<exists>k. stops_after sweep tol n x0 k \<and> (\<forall>k'. stops_after sweep tol n x0 k' \<longrightarrow> k' = k)
     \<and> store_potentials S1 (fst (relax_loop sweep tol verbose 0 n x0))
          (pre @ snd (relax_loop sweep tol verbose 0 n x0))
        = Inr (S1\<lparr>potentials := chunks (nat (Ns S1)) (nat (Ns S1)) ((sweep ^^ k) x0)\<rparr>,
               pre @ (if verbose then map (\<lambda>j. IterDiff j (norm_delta sweep x0 j)) [0..<k] else []))
     \<and> concat (chunks (nat (Ns S1)) (nat (Ns S1)) ((sweep ^^ k) x0)) = (sweep ^^ k) x0"
proof -
  from relax_loop_stops[OF assms(2), of sweep tol x0 verbose 0] obtain k where
    k: "stops_after sweep tol n x0 k"
    and r: "relax_loop sweep tol verbose 0 n x0 =
               ((sweep ^^ k) x0,
                if verbose then map (\<lambda>j. IterDiff (0 + j) (norm_delta sweep x0 j)) [0..<k] else [])"
    by blast
  have sq: "nat ((Ns S1)\<^sup>2) = nat (Ns S1) * nat (Ns S1)"
    using assms(1) by (simp add: nat_sq_abs)
  have len: "length ((sweep ^^ k) x0) = nat (Ns S1) * nat (Ns S1)"
    using funpow_length[of "nat ((Ns S1)\<^sup>2)" sweep x0 k] assms(3,4) sq by simp
  have u: "\<forall>k'. stops_after sweep tol n x0 k' \<longrightarrow> k' = k"
    using stops_after_unique[OF _ k] by blast
  have st: "store_potentials S1 (fst (relax_loop sweep tol verbose 0 n x0))
          (pre @ snd (relax_loop sweep tol verbose 0 n x0))
        = Inr (S1\<lparr>potentials := chunks (nat (Ns S1)) (nat (Ns S1)) ((sweep ^^ k) x0)\<rparr>,
               pre @ (if verbose then map (\<lambda>j. IterDiff j (norm_delta sweep x0 j)) [0..<k] else []))"
    unfolding r by (simp add: store_potentials_def np_reshape_square[OF assms(1) len])
  show ?thesis using k u st chunks_concat[OF len] by blast
qed


lemma jacobi_step_length:
  assumes "keeps_rows linalg_inv" "jacobi_step linalg_inv S = Some sw"
  shows "length (sw x) = nat ((Ns S)\<^sup>2)"
proof -
  from assms(2) obtain T c where
    jm: "jacobi_matrices linalg_inv (fst (method_matrix (Ns S))) (nat ((Ns S)\<^sup>2)) = Some (T, c)"
    and sw: "sw = jacobi_sweep T c (concat (sources S)) (concat (potentials S))"
    by (auto simp: jacobi_step_def split: option.splits)
  show ?thesis unfolding sw jacobi_sweep_length
    using jacobi_matrices_rows[OF assms(1) jm] by (simp add: method_matrix_length)
qed

lemma gauss_seidel_step_length:
  assumes "keeps_rows linalg_inv" "gauss_seidel_step linalg_inv S = Some sw"
  shows "length (sw x) = nat ((Ns S)\<^sup>2)"
proof -
  from assms(2) obtain T c where
    gm: "gauss_seidel_matrices linalg_inv (fst (method_matrix (Ns S))) (nat ((Ns S)\<^sup>2)) = Some (T, c)"
    and sw: "sw = gauss_seidel_sweep T c (concat (sources S)) (concat (potentials S))"
    by (auto simp: gauss_seidel_step_def split: option.splits)
  show ?thesis unfolding sw gauss_seidel_sweep_length
    using gauss_seidel_matrices_rows[OF assms(1) gm] by (simp add: method_matrix_length)
qed

lemma SOR_step_length: "length (SOR_step w S x) = length x"
  by (simp add: SOR_step_def SOR_sweep_length)

text \<open>A method whose sweep keeps the length of the vector returns, and stores the vector
  that the stopping rule ends with.\<close>

lemma method_runs:
  assumes "wf_grid S" and "0 < Ns S" and "0 < max_iter"
    and sl: "\<And>x. length x = nat ((Ns S)\<^sup>2) \<Longrightarrow> length (sw x) = nat ((Ns S)\<^sup>2)"
  shows "\<exists>k. stops_after sw tol (nat max_iter) (start_vector rnd S) k
     \<and> (\<forall>k'. stops_after sw tol (nat max_iter) (start_vector rnd S) k' \<longrightarrow> k' = k)
     \<and> store_potentials (create_method_matrix S)
            (fst (relax_loop sw tol verbose 0 (nat max_iter) (start_vector rnd S)))
            (pre @ snd (relax_loop sw tol verbose 0 (nat max_iter) (start_vector rnd S))) =
         Inr ((create_method_matrix S)
                \<lparr>potentials := chunks (nat (Ns S)) (nat (Ns S)) ((sw ^^ k) (start_vector rnd S))\<rparr>,
              pre @ (if verbose
                     then map (\<lambda>j. IterDiff j (norm_delta sw (start_vector rnd S) j)) [0..<k]
                     else []))
     \<and> concat (chunks (nat (Ns S)) (nat (Ns S)) ((sw ^^ k) (start_vector rnd S))) =
           (sw ^^ k) (start_vector rnd S)"
proof -
  define S1 where "S1 = create_method_matrix S"
  have nn: "Ns S1 = Ns S" by (simp add: S1_def create_method_matrix_fields)
  have n1: "0 < Ns S1" using assms(2) nn by simp
  have mi: "0 < nat max_iter" using assms(3) by simp
  have x1: "length (start_vector rnd S) = nat ((Ns S1)\<^sup>2)"
    unfolding nn by (simp add: start_vector_length wf_grid_concat[OF assms(1)])
  have sl': "\<And>x. length x = nat ((Ns S1)\<^sup>2) \<Longrightarrow> length (sw x) = nat ((Ns S1)\<^sup>2)"
    unfolding nn by (rule sl)
  from store_after_loop[where sweep = sw and tol = tol and verbose = verbose
        and pre = pre, OF n1 mi sl' x1]
  show ?thesis unfolding nn unfolding S1_def .
qed

subsection \<open>C4: the stopping rule\<close>

lemma runs_result:
  assumes "\<exists>k. stops_after sw tol n x0 k
     \<and> (\<forall>k'. stops_after sw tol n x0 k' \<longrightarrow> k' = k)
     \<and> r = Inr (S1\<lparr>potentials := chunks m m ((sw ^^ k) x0)\<rparr>,
                pre @ (if verbose then map (\<lambda>j. IterDiff j (norm_delta sw x0 j)) [0..<k] else []))
     \<and> concat (chunks m m ((sw ^^ k) x0)) = (sw ^^ k) x0"
  shows "\<exists>k S' out. stops_after sw tol n x0 k
     \<and> (\<forall>k'. stops_after sw tol n x0 k' \<longrightarrow> k' = k)
     \<and> r = Inr (S', out)
     \<and> concat (potentials S') = (sw ^^ k) x0
     \<and> (verbose \<longrightarrow> length out = length pre + k)"
proof -
  from assms obtain k where k: "stops_after sw tol n x0 k"
     "\<forall>k'. stops_after sw tol n x0 k' \<longrightarrow> k' = k"
     "r = Inr (S1\<lparr>potentials := chunks m m ((sw ^^ k) x0)\<rparr>,
                pre @ (if verbose then map (\<lambda>j. IterDiff j (norm_delta sw x0 j)) [0..<k] else []))"
     "concat (chunks m m ((sw ^^ k) x0)) = (sw ^^ k) x0"
    by blast
  define S' where "S' = S1\<lparr>potentials := chunks m m ((sw ^^ k) x0)\<rparr>"
  define out where "out = pre @ (if verbose then map (\<lambda>j. IterDiff j (norm_delta sw x0 j)) [0..<k] else [])"
  have 1: "r = Inr (S', out)" using k(3) by (simp add: S'_def out_def)
  have 2: "concat (potentials S') = (sw ^^ k) x0" using k(4) by (simp add: S'_def)
  have 3: "verbose \<longrightarrow> length out = length pre + k" by (simp add: out_def)
  show ?thesis using k(1,2) 1 2 3 by blast
qed

text \<open>
  Claim C4. For a well-formed System with positive \<open>Ns\<close>, any \<open>tol\<close> and a positive
  \<open>max_iter\<close>, each of the three methods returns, and the vector it stores is the start
  vector after \<open>k\<close> whole sweeps, where \<open>k\<close> is the one number with \<open>stops_after\<close>: no
  earlier sweep changed the norm by less than \<open>tol\<close>, and sweep \<open>k\<close> did so or is sweep
  number \<open>max_iter\<close>. With \<open>verbose\<close> one line is printed for each sweep run. For jacobi and
  gauss_seidel this is said of the sweep they build when \<open>np.linalg.inv\<close> succeeds.
\<close>

theorem norm_delta_stopping_rule:
  assumes "wf_grid S" and "0 < Ns S" and "0 < max_iter" and "keeps_rows linalg_inv"
  shows
    "(\<forall>sw. jacobi_step linalg_inv S = Some sw \<longrightarrow>
        (\<exists>k S' out.
           stops_after sw tol (nat max_iter) (start_vector rnd S) k
         \<and> (\<forall>k'. stops_after sw tol (nat max_iter) (start_vector rnd S) k' \<longrightarrow> k' = k)
         \<and> jacobi linalg_inv rnd tol max_iter verbose S = Inr (S', out)
         \<and> concat (potentials S') = (sw ^^ k) (start_vector rnd S)
         \<and> (verbose \<longrightarrow> length out = length [Text ''Jacobi: finished creating matrices''] + k)))
   \<and> (\<forall>sw. gauss_seidel_step linalg_inv S = Some sw \<longrightarrow>
        (\<exists>k S' out.
           stops_after sw tol (nat max_iter) (start_vector rnd S) k
         \<and> (\<forall>k'. stops_after sw tol (nat max_iter) (start_vector rnd S) k' \<longrightarrow> k' = k)
         \<and> gauss_seidel linalg_inv rnd tol max_iter verbose S = Inr (S', out)
         \<and> concat (potentials S') = (sw ^^ k) (start_vector rnd S)
         \<and> (verbose \<longrightarrow> length out = length [Text ''Gauss Seidel: finished creating matrices''] + k)))
   \<and> (\<exists>k S' out.
           stops_after (SOR_step w S) tol (nat max_iter) (start_vector rnd S) k
         \<and> (\<forall>k'. stops_after (SOR_step w S) tol (nat max_iter) (start_vector rnd S) k' \<longrightarrow> k' = k)
         \<and> SOR rnd w tol max_iter verbose S = Inr (S', out)
         \<and> concat (potentials S') = (SOR_step w S ^^ k) (start_vector rnd S)
         \<and> (verbose \<longrightarrow> length out = length ([] :: printed list) + k))"
proof (intro conjI allI impI)
  fix sw assume s: "jacobi_step linalg_inv S = Some sw"
  have sl: "\<And>x. length x = nat ((Ns S)\<^sup>2) \<Longrightarrow> length (sw x) = nat ((Ns S)\<^sup>2)"
    using jacobi_step_length[OF assms(4) s] by simp
  have u: "jacobi linalg_inv rnd tol max_iter verbose S =
      store_potentials (create_method_matrix S)
            (fst (relax_loop sw tol verbose 0 (nat max_iter) (start_vector rnd S)))
            ([Text ''Jacobi: finished creating matrices''] @
             snd (relax_loop sw tol verbose 0 (nat max_iter) (start_vector rnd S)))"
    unfolding jacobi_unfold s by simp
  show "\<exists>k S' out.
           stops_after sw tol (nat max_iter) (start_vector rnd S) k
         \<and> (\<forall>k'. stops_after sw tol (nat max_iter) (start_vector rnd S) k' \<longrightarrow> k' = k)
         \<and> jacobi linalg_inv rnd tol max_iter verbose S = Inr (S', out)
         \<and> concat (potentials S') = (sw ^^ k) (start_vector rnd S)
         \<and> (verbose \<longrightarrow> length out = length [Text ''Jacobi: finished creating matrices''] + k)"
    unfolding u by (rule runs_result) (rule method_runs[OF assms(1,2,3) sl])
next
  fix sw assume s: "gauss_seidel_step linalg_inv S = Some sw"
  have sl: "\<And>x. length x = nat ((Ns S)\<^sup>2) \<Longrightarrow> length (sw x) = nat ((Ns S)\<^sup>2)"
    using gauss_seidel_step_length[OF assms(4) s] by simp
  have u: "gauss_seidel linalg_inv rnd tol max_iter verbose S =
      store_potentials (create_method_matrix S)
            (fst (relax_loop sw tol verbose 0 (nat max_iter) (start_vector rnd S)))
            ([Text ''Gauss Seidel: finished creating matrices''] @
             snd (relax_loop sw tol verbose 0 (nat max_iter) (start_vector rnd S)))"
    unfolding gauss_seidel_unfold s by simp
  show "\<exists>k S' out.
           stops_after sw tol (nat max_iter) (start_vector rnd S) k
         \<and> (\<forall>k'. stops_after sw tol (nat max_iter) (start_vector rnd S) k' \<longrightarrow> k' = k)
         \<and> gauss_seidel linalg_inv rnd tol max_iter verbose S = Inr (S', out)
         \<and> concat (potentials S') = (sw ^^ k) (start_vector rnd S)
         \<and> (verbose \<longrightarrow> length out = length [Text ''Gauss Seidel: finished creating matrices''] + k)"
    unfolding u by (rule runs_result) (rule method_runs[OF assms(1,2,3) sl])
next
  have sl: "\<And>x. length x = nat ((Ns S)\<^sup>2) \<Longrightarrow> length (SOR_step w S x) = nat ((Ns S)\<^sup>2)"
    by (simp add: SOR_step_length)
  show "\<exists>k S' out.
           stops_after (SOR_step w S) tol (nat max_iter) (start_vector rnd S) k
         \<and> (\<forall>k'. stops_after (SOR_step w S) tol (nat max_iter) (start_vector rnd S) k' \<longrightarrow> k' = k)
         \<and> SOR rnd w tol max_iter verbose S = Inr (S', out)
         \<and> concat (potentials S') = (SOR_step w S ^^ k) (start_vector rnd S)
         \<and> (verbose \<longrightarrow> length out = length ([] :: printed list) + k)"
    unfolding SOR_unfold by (rule runs_result) (rule method_runs[OF assms(1,2,3) sl])
qed

lemma one_cell_start:
  "start_vector (\<lambda>k. 1) \<lparr>Ns = 1, h = 1, potentials = [[0]], sources = [[False]],
      source_potentials = [[0]], A = None, boundary_conditions = None\<rparr> = [1]"
  by (simp add: start_vector_def mask_assign_def)

lemma one_cell_jacobi_step:
  "jacobi_step (\<lambda>M. Some (map (map inverse) M))
     \<lparr>Ns = 1, h = 1, potentials = [[0]], sources = [[False]],
      source_potentials = [[0]], A = None, boundary_conditions = None\<rparr>
   = Some (jacobi_sweep [[0]] [0] [False] [0])"
  by (simp add: jacobi_step_def jacobi_matrices_def method_matrix_1 np_diag_diag_def np_tril_def
      np_triu_def mat_add_def mat_neg_def np_dot_mm_def np_dot_mv_def ncols_def Let_def)

lemma one_cell_sweep: "jacobi_sweep [[0]] [0] [False] [0] [v] = [0]"
  by (simp add: jacobi_sweep_def mask_assign_def vec_add_def np_dot_mv_def)

lemma linalg_norm_single: "linalg_norm [v] = \<bar>v\<bar>"
  by (simp add: linalg_norm_def)

text \<open>jacobi on a grid of one cell, started at 1: the first sweep changes the norm by 1,
  the second by 0, and the iteration stops after the second of at most five sweeps.\<close>

theorem norm_delta_stopping_rule_witness:
  "\<exists>S' out.
      stops_after (jacobi_sweep [[0]] [0] [False] [0]) (1 / 2) 5 [1] 2
    \<and> jacobi (\<lambda>M. Some (map (map inverse) M)) (\<lambda>k. 1) (1 / 2) 5 True
        \<lparr>Ns = 1, h = 1, potentials = [[0]], sources = [[False]],
         source_potentials = [[0]], A = None, boundary_conditions = None\<rparr> = Inr (S', out)
    \<and> concat (potentials S') = [0]
    \<and> length out = 3"
proof -
  let ?S = "\<lparr>Ns = 1, h = 1, potentials = [[0]], sources = [[False]],
         source_potentials = [[0]], A = None, boundary_conditions = None\<rparr> :: System"
  let ?inv = "\<lambda>M :: mat. Some (map (map inverse) M)"
  let ?sw = "jacobi_sweep [[0]] [0] [False] [0]"
  have a: "wf_grid ?S" by (simp add: wf_grid_def square_def)
  have b: "0 < Ns ?S" by simp
  have c: "(0::int) < 5" by simp
  have d: "keeps_rows ?inv" by (auto simp: keeps_rows_def)
  have st: "stops_after ?sw (1 / 2) 5 [1] 2"
    by (simp add: stops_after_def norm_delta_def one_cell_sweep linalg_norm_single
        numeral_2_eq_2)
  from norm_delta_stopping_rule[OF a b c d, of "1 / 2" "\<lambda>k. 1" True]
  have "\<exists>k S' out.
           stops_after ?sw (1 / 2) (nat 5) (start_vector (\<lambda>k. 1) ?S) k
         \<and> (\<forall>k'. stops_after ?sw (1 / 2) (nat 5) (start_vector (\<lambda>k. 1) ?S) k' \<longrightarrow> k' = k)
         \<and> jacobi ?inv (\<lambda>k. 1) (1 / 2) 5 True ?S = Inr (S', out)
         \<and> concat (potentials S') = (?sw ^^ k) (start_vector (\<lambda>k. 1) ?S)
         \<and> (True \<longrightarrow> length out = length [Text ''Jacobi: finished creating matrices''] + k)"
    using one_cell_jacobi_step by blast
  then obtain k S' out where k: "\<forall>k'. stops_after ?sw (1 / 2) (nat 5) [1] k' \<longrightarrow> k' = k"
    and r: "jacobi ?inv (\<lambda>k. 1) (1 / 2) 5 True ?S = Inr (S', out)"
    and p: "concat (potentials S') = (?sw ^^ k) [1]"
    and l: "length out = length [Text ''Jacobi: finished creating matrices''] + k"
    unfolding one_cell_start by blast
  have k2: "k = 2" using k st by simp
  have "concat (potentials S') = [0]" using p unfolding k2 by (simp add: numeral_2_eq_2 one_cell_sweep)
  moreover have "length out = 3" using l k2 by simp
  ultimately show ?thesis using st r by blast
qed

subsection \<open>C10: what a solve writes\<close>

lemma store_potentials_frame:
  assumes "store_potentials S1 x out = Inr (S', out')"
  shows "S' = S1\<lparr>potentials := potentials S'\<rparr>"
  using assms by (auto simp: store_potentials_def split: option.splits)

lemma jacobi_frame:
  assumes "jacobi linalg_inv rnd tol max_iter verbose S = Inr (S', out)"
  shows "S' = (create_method_matrix S)\<lparr>potentials := potentials S'\<rparr>"
  using assms unfolding jacobi_unfold
  by (cases "jacobi_step linalg_inv S") (simp_all add: store_potentials_frame)

lemma gauss_seidel_frame:
  assumes "gauss_seidel linalg_inv rnd tol max_iter verbose S = Inr (S', out)"
  shows "S' = (create_method_matrix S)\<lparr>potentials := potentials S'\<rparr>"
  using assms unfolding gauss_seidel_unfold
  by (cases "gauss_seidel_step linalg_inv S") (simp_all add: store_potentials_frame)

lemma SOR_frame:
  assumes "SOR rnd w tol max_iter verbose S = Inr (S', out)"
  shows "S' = (create_method_matrix S)\<lparr>potentials := potentials S'\<rparr>"
  using assms unfolding SOR_unfold by (rule store_potentials_frame)

lemma frame_fields:
  assumes "S' = (create_method_matrix S)\<lparr>potentials := P\<rparr>"
  shows "sources S' = sources S \<and> source_potentials S' = source_potentials S
     \<and> Ns S' = Ns S \<and> h S' = h S"
  using assms by (simp add: create_method_matrix_fields)

text \<open>
  Claim C10. Whenever one of the three methods returns, the System it leaves is the one
  \<open>create_method_matrix\<close> left, with a new potential field: the source mask, the source
  potentials, \<open>Ns\<close> and \<open>h\<close> are as before the call, and only \<open>potentials\<close>, \<open>A\<close> and
  \<open>boundary_conditions\<close> are written.
\<close>

theorem solve_leaves_sources:
  "(jacobi linalg_inv rnd tol max_iter verbose S = Inr (S', out) \<longrightarrow>
      sources S' = sources S \<and> source_potentials S' = source_potentials S
      \<and> Ns S' = Ns S \<and> h S' = h S
      \<and> S' = (create_method_matrix S)\<lparr>potentials := potentials S'\<rparr>)
   \<and> (gauss_seidel linalg_inv rnd tol max_iter verbose S = Inr (S', out) \<longrightarrow>
      sources S' = sources S \<and> source_potentials S' = source_potentials S
      \<and> Ns S' = Ns S \<and> h S' = h S
      \<and> S' = (create_method_matrix S)\<lparr>potentials := potentials S'\<rparr>)
   \<and> (SOR rnd w tol max_iter verbose S = Inr (S', out) \<longrightarrow>
      sources S' = sources S \<and> source_potentials S' = source_potentials S
      \<and> Ns S' = Ns S \<and> h S' = h S
      \<and> S' = (create_method_matrix S)\<lparr>potentials := potentials S'\<rparr>)"
  using jacobi_frame[of linalg_inv rnd tol max_iter verbose S S' out]
    gauss_seidel_frame[of linalg_inv rnd tol max_iter verbose S S' out]
    SOR_frame[of rnd w tol max_iter verbose S S' out]
    frame_fields[where S' = S' and S = S and P = "potentials S'"]
  by blast

lemma one_source_start:
  "start_vector rnd \<lparr>Ns = 1, h = 1, potentials = [[7]], sources = [[True]],
      source_potentials = [[7]], A = None, boundary_conditions = None\<rparr> = [7]"
  by (simp add: start_vector_def mask_assign_def)

lemma one_source_jacobi_step:
  "jacobi_step (\<lambda>M. Some (map (map inverse) M))
     \<lparr>Ns = 1, h = 1, potentials = [[7]], sources = [[True]],
      source_potentials = [[7]], A = None, boundary_conditions = None\<rparr>
   = Some (jacobi_sweep [[0]] [0] [True] [7])"
  by (simp add: jacobi_step_def jacobi_matrices_def method_matrix_1 np_diag_diag_def np_tril_def
      np_triu_def mat_add_def mat_neg_def np_dot_mm_def np_dot_mv_def ncols_def Let_def)

lemma one_source_sweep: "jacobi_sweep [[0]] [0] [True] [7] [v] = [7]"
  by (simp add: jacobi_sweep_def mask_assign_def vec_add_def np_dot_mv_def)

lemma np_reshape_single: "np_reshape 1 [v] = Some [[v]]"
  by (simp add: np_reshape_def)

lemma method_matrix_one:
  "method_matrix 1 = ([[- 4]], [[(0, - 1), (0, 1), (- 1, 0), (1, 0)]])"
  by (simp add: method_matrix_def Let_def np_zeros2_def stencil_row_def stencil_neighbour_def
      set2_def trunc_div_def)

lemma relax_loop_first:
  assumes "\<bar>linalg_norm x - linalg_norm (sweep x)\<bar> < tol" "0 < n"
  shows "relax_loop sweep tol verbose i n x =
     (sweep x, if verbose then [IterDiff i \<bar>linalg_norm x - linalg_norm (sweep x)\<bar>] else [])"
  using assms by (cases n) (simp_all add: Let_def)

lemma one_source_jacobi:
  "jacobi (\<lambda>M. Some (map (map inverse) M)) rnd (1 / 2) 5 True
     \<lparr>Ns = 1, h = 1, potentials = [[7]], sources = [[True]],
      source_potentials = [[7]], A = None, boundary_conditions = None\<rparr>
   = Inr (\<lparr>Ns = 1, h = 1, potentials = [[7]], sources = [[True]],
           source_potentials = [[7]], A = Some [[- 4]],
           boundary_conditions = Some [[(0, - 1), (0, 1), (- 1, 0), (1, 0)]]\<rparr>,
          [Text ''Jacobi: finished creating matrices'', IterDiff 0 0])"
proof -
  have c: "\<bar>linalg_norm [7] - linalg_norm (jacobi_sweep [[0]] [0] [True] [7] [7])\<bar> < 1 / 2"
    by (simp add: one_source_sweep)
  have n: "0 < nat 5" by simp
  show ?thesis
    unfolding jacobi_unfold one_source_jacobi_step option.case one_source_start
      relax_loop_first[where sweep = "jacobi_sweep [[0]] [0] [True] [7]" and x = "[7]", OF c n]
    by (simp add: one_source_sweep store_potentials_def np_reshape_single
        create_method_matrix_def method_matrix_one)
qed

text \<open>jacobi on a grid of one cell that is a source at potential 7.\<close>

theorem solve_leaves_sources_witness:
  "\<exists>S' out.
     jacobi (\<lambda>M. Some (map (map inverse) M)) (\<lambda>k. 0) (1 / 2) 5 True
       \<lparr>Ns = 1, h = 1, potentials = [[7]], sources = [[True]],
        source_potentials = [[7]], A = None, boundary_conditions = None\<rparr> = Inr (S', out)
     \<and> sources S' = [[True]] \<and> source_potentials S' = [[7]] \<and> Ns S' = 1 \<and> h S' = 1"
proof -
  let ?S = "\<lparr>Ns = 1, h = 1, potentials = [[7]], sources = [[True]],
        source_potentials = [[7]], A = None, boundary_conditions = None\<rparr> :: System"
  let ?S' = "\<lparr>Ns = 1, h = 1, potentials = [[7]], sources = [[True]],
           source_potentials = [[7]], A = Some [[- 4]],
           boundary_conditions = Some [[(0, - 1), (0, 1), (- 1, 0), (1, 0)]]\<rparr> :: System"
  let ?out = "[Text ''Jacobi: finished creating matrices'', IterDiff 0 0]"
  have r: "jacobi (\<lambda>M. Some (map (map inverse) M)) (\<lambda>k. 0) (1 / 2) 5 True ?S = Inr (?S', ?out)"
    by (rule one_source_jacobi)
  from solve_leaves_sources[of "\<lambda>M. Some (map (map inverse) M)" "\<lambda>k. 0" "1 / 2" 5 True ?S ?S' ?out] r
  have "sources ?S' = sources ?S \<and> source_potentials ?S' = source_potentials ?S
      \<and> Ns ?S' = Ns ?S \<and> h ?S' = h ?S" by blast
  then show ?thesis using r by (intro exI[of _ ?S'] exI[of _ ?out]) simp
qed

subsection \<open>What a Shape holds\<close>

lemma set2_square:
  assumes "square k M" shows "square k (set2 M i j v)"
proof -
  from assms have l: "length M = k" and r: "\<And>a. a < k \<Longrightarrow> length (M ! a) = k"
    by (auto simp: square_def)
  have "length (M[i := (M ! i)[j := v]] ! a) = k" if "a < k" for a
    using that l r by (cases "a = i") simp_all
  then show ?thesis using l by (auto simp: square_def set2_def set_conv_nth)
qed

lemma set2_nth:
  assumes "square k M" "i' < k" "j' < k"
  shows "set2 M i j v ! i' ! j' = (if i' = i \<and> j' = j then v else M ! i' ! j')"
proof -
  have l: "length M = k" "length (M ! i') = k" using assms by (auto simp: square_def)
  show ?thesis
  proof (cases "i' = i")
    case True
    then show ?thesis using l assms(2,3) by (simp add: set2_def nth_list_update)
  next
    case False
    then show ?thesis by (simp add: set2_def)
  qed
qed

lemma mark_shape_of:
  assumes "shape_of n p s"
  shows "shape_of n p (mark s i j)"
proof -
  let ?k = "nat \<bar>Ns s\<bar>"
  from assms have wf: "wf_grid s" and n: "Ns s = n" and p: "potential s = p"
    and cells: "\<forall>i<?k. \<forall>j<?k.
            potentials s ! i ! j = (if sources s ! i ! j then potential s else 0)
          \<and> source_potentials s ! i ! j = (if sources s ! i ! j then potential s else 0)"
    by (simp_all add: shape_of_def shape_inv_def)
  from wf have sq: "square ?k (potentials s)" "square ?k (sources s)" "square ?k (source_potentials s)"
    and nz: "Ns s \<noteq> 0" by (simp_all add: wf_grid_def)
  have wf': "wf_grid (mark s i j)"
    using nz sq by (simp add: wf_grid_def mark_def set2_square)
  have "\<forall>i'<?k. \<forall>j'<?k.
            potentials (mark s i j) ! i' ! j' = (if sources (mark s i j) ! i' ! j' then potential s else 0)
          \<and> source_potentials (mark s i j) ! i' ! j' = (if sources (mark s i j) ! i' ! j' then potential s else 0)"
    using cells by (simp add: mark_def set2_nth[OF sq(1)] set2_nth[OF sq(2)] set2_nth[OF sq(3)])
  then show ?thesis using wf' n p by (simp add: shape_of_def shape_inv_def mark_def)
qed

lemma add_point_shape_of:
  assumes "shape_of n p s" "add_point s origin = Inr s'"
  shows "shape_of n p s'"
  using assms by (auto simp: add_point_def Let_def mark_shape_of split: option.splits if_splits)

lemma add_points_shape_of:
  assumes "shape_of n p s" "add_points s ps = Inr s'"
  shows "shape_of n p s'"
  using assms
proof (induction ps arbitrary: s)
  case Nil
  then show ?case by simp
next
  case (Cons q ps)
  then show ?case by (auto split: sum.splits dest: add_point_shape_of)
qed

lemma foldl_mark_shape_of:
  "shape_of n p s \<Longrightarrow> shape_of n p (foldl (\<lambda>s' index. mark s' i index) s js)"
  by (induction js arbitrary: s) (simp_all add: mark_shape_of)

lemma fill_row_shape_of: "shape_of n p s \<Longrightarrow> shape_of n p (fill_row s i)"
  by (simp add: fill_row_def Let_def foldl_mark_shape_of)

lemma fill_shape_of: "shape_of n p s \<Longrightarrow> shape_of n p (fill s)"
proof -
  have "shape_of n p s \<Longrightarrow> shape_of n p (foldl fill_row s is)" for "is"
    by (induction "is" arbitrary: s) (simp_all add: fill_row_shape_of)
  then show "shape_of n p s \<Longrightarrow> shape_of n p (fill s)" by (simp add: fill_def)
qed

lemma rectangle_side_shape_of:
  assumes "shape_of n p (fst st)" "rectangle_side st vs = Inr st'"
  shows "shape_of n p (fst st')"
  using assms
  by (auto simp: rectangle_side_def Let_def split: if_splits sum.splits dest: add_points_shape_of)

lemma rectangle_sides_shape_of:
  assumes "shape_of n p (fst st)" "rectangle_sides st vss = Inr st'"
  shows "shape_of n p (fst st')"
  using assms
proof (induction vss arbitrary: st)
  case Nil
  then show ?case by simp
next
  case (Cons vs vss)
  then show ?case by (auto split: sum.splits dest: rectangle_side_shape_of)
qed

lemma rectangle_outline_shape_of:
  assumes "shape_of n p s" "rectangle_outline s origin width height = Inr st'"
  shows "shape_of n p (fst st')"
proof -
  from assms(2) obtain vss where
    "rectangle_sides (s, [AddingRectangle origin width height]) vss = Inr st'"
    unfolding rectangle_outline_def Let_def by blast
  then show ?thesis by (rule rectangle_sides_shape_of[rotated]) (simp add: assms(1))
qed

lemma circle_outline_shape_of:
  assumes "shape_of n p s" "circle_outline s origin r = Inr st'"
  shows "shape_of n p (fst st')"
  using assms
  by (auto simp: circle_outline_def Let_def split: if_splits sum.splits dest: add_points_shape_of)

lemma fill_if_shape_of:
  assumes "\<And>st. r = Inr st \<Longrightarrow> shape_of n p (fst st)" "fill_if filled r = Inr st'"
  shows "shape_of n p (fst st')"
  using assms by (cases r) (auto simp: fill_if_def fill_shape_of)

lemma add_source_shape_of:
  assumes "shape_of n p s" "add_source s origin args kw = Inr st'"
  shows "shape_of n p (fst st')"
proof (cases "args = []")
  case True
  then show ?thesis using assms
    by (auto simp: add_source_def split: sum.splits dest: add_point_shape_of)
next
  case False
  define shape where "shape = (case kw_shape kw of Some sh \<Rightarrow> sh | None \<Rightarrow> ''rectangle'')"
  define filled where "filled = (case kw_filled kw of Some f \<Rightarrow> f | None \<Rightarrow> True)"
  have e: "add_source s origin args kw =
     (if shape = ''rectangle'' then
              (if length args = 2
               then fill_if filled (rectangle_outline s origin (args ! 0) (args ! 1))
               else Inr (s, [NotImplemented (length args) shape]))
            else if shape = ''circle'' then
              (if length args = 1
               then fill_if filled (circle_outline s origin (args ! 0))
               else Inr (s, [NotImplemented (length args) shape]))
            else Inr (s, []))"
    using False by (simp add: add_source_def Let_def shape_def filled_def)
  consider (rect) "shape = ''rectangle''" "length args = 2"
    | (rectn) "shape = ''rectangle''" "length args \<noteq> 2"
    | (circ) "shape \<noteq> ''rectangle''" "shape = ''circle''" "length args = 1"
    | (circn) "shape \<noteq> ''rectangle''" "shape = ''circle''" "length args \<noteq> 1"
    | (other) "shape \<noteq> ''rectangle''" "shape \<noteq> ''circle''"
    by blast
  then show ?thesis
  proof cases
    case rect
    then have "fill_if filled (rectangle_outline s origin (args ! 0) (args ! 1)) = Inr st'"
      using assms(2) e by simp
    then show ?thesis
      by (rule fill_if_shape_of[rotated]) (rule rectangle_outline_shape_of[OF assms(1)])
  next
    case rectn
    then show ?thesis using assms e by auto
  next
    case circ
    then have "fill_if filled (circle_outline s origin (args ! 0)) = Inr st'"
      using assms(2) e by simp
    then show ?thesis
      by (rule fill_if_shape_of[rotated]) (rule circle_outline_shape_of[OF assms(1)])
  next
    case circn
    then show ?thesis using assms e by auto
  next
    case other
    then show ?thesis using assms e by auto
  qed
qed

lemma replicate_square: "square k (replicate k (replicate k v))"
  by (simp add: square_def)

lemma Shape_init_shape_of:
  assumes "Shape_init v p origin args kw = Inr (r, out)"
  shows "\<exists>n. v = PyInt n \<and> n \<noteq> 0 \<and> shape_of n p r"
proof -
  from assms obtain n where v: "v = PyInt n" and n: "n \<noteq> 0"
    by (cases v) (auto simp: Shape_init_def split: if_splits)
  let ?k = "nat \<bar>n\<bar>"
  let ?s = "\<lparr>Ns = n, h = 1 / real_of_int n,
               potentials = np_zeros2 ?k ?k,
               sources = replicate ?k (replicate ?k False),
               source_potentials = np_zeros2 ?k ?k,
               potential = p\<rparr>"
  have s0: "shape_of n p ?s"
    using n by (simp add: shape_of_def shape_inv_def wf_grid_def np_zeros2_def replicate_square)
  have "add_source ?s origin args kw = Inr (r, out)"
    using assms v n by (simp add: Shape_init_def Let_def)
  from add_source_shape_of[OF s0 this] show ?thesis using v n by simp
qed

subsection \<open>C1: source cells stay pinned\<close>

lemma square_ext:
  assumes "square k M1" "square k M2" "\<And>i j. i < k \<Longrightarrow> j < k \<Longrightarrow> M1 ! i ! j = M2 ! i ! j"
  shows "M1 = M2"
proof (rule nth_equalityI)
  show "length M1 = length M2" using assms(1,2) by (simp add: square_def)
next
  fix i assume "i < length M1"
  then have i: "i < k" using assms(1) by (simp add: square_def)
  have l: "length (M1 ! i) = k" "length (M2 ! i) = k" using assms(1,2) i by (auto simp: square_def)
  show "M1 ! i = M2 ! i"
    by (rule nth_equalityI) (use l assms(3) i in simp_all)
qed

lemma map2_square:
  assumes "square k M1" "square k M2"
  shows "square k (map2 (map2 f) M1 M2)"
  using assms by (auto simp: square_def set_zip)

lemma map2_nth2:
  assumes "square k M1" "square k M2" "i < k" "j < k"
  shows "map2 (map2 f) M1 M2 ! i ! j = f (M1 ! i ! j) (M2 ! i ! j)"
  using assms by (auto simp: square_def)

lemma System_init_inv:
  assumes "System_init v = Inr S"
  shows "wf_grid S \<and> potentials S = source_potentials S"
proof -
  from assms obtain n where v: "v = PyInt n" and n: "n \<noteq> 0"
    by (cases v) (auto simp: System_init_def split: if_splits)
  show ?thesis using assms v n
    by (auto simp: System_init_def Let_def wf_grid_def np_zeros2_def replicate_square)
qed

lemma shape_inv_equal:
  assumes "shape_inv r" shows "potentials r = source_potentials r"
proof -
  from assms have "square (nat \<bar>Ns r\<bar>) (potentials r)" "square (nat \<bar>Ns r\<bar>) (source_potentials r)"
    by (simp_all add: shape_inv_def wf_grid_def)
  then show ?thesis
    by (rule square_ext) (use assms in \<open>simp add: shape_inv_def\<close>)
qed

lemma add_inv:
  assumes "wf_grid S" "potentials S = source_potentials S" "shape_inv r" "add S r = Inr S'"
  shows "wf_grid S' \<and> potentials S' = source_potentials S'"
proof -
  from assms(4) have n: "Ns r = Ns S"
    and S': "S' = S\<lparr>potentials := map2 (map2 (+)) (potentials S) (potentials r),
                  sources := map2 (map2 (\<or>)) (sources S) (sources r),
                  source_potentials :=
                    map2 (map2 (+)) (source_potentials S) (source_potentials r)\<rparr>"
    by (auto simp: add_def split: if_splits)
  from assms(3) have wr: "wf_grid r" by (simp add: shape_inv_def)
  have "wf_grid S'" using assms(1) wr n unfolding S' wf_grid_def
    by (simp add: map2_square)
  moreover have "potentials S' = source_potentials S'"
    unfolding S' using assms(2) shape_inv_equal[OF assms(3)] by simp
  ultimately show ?thesis by blast
qed

lemma populated_inv:
  assumes "populated S"
  shows "wf_grid S \<and> potentials S = source_potentials S"
  using assms
proof (induction rule: populated.induct)
  case (fresh v S)
  then show ?case by (rule System_init_inv)
next
  case (added S v p origin args kw r out S')
  from Shape_init_shape_of[OF added.hyps(2)] have "shape_inv r" by (auto simp: shape_of_def)
  with added show ?case using add_inv by blast
qed

lemma equal_pinned: "potentials S = source_potentials S \<Longrightarrow> pinned S"
  by (simp add: pinned_def)

lemma wf_grid_rows:
  assumes "wf_grid S"
  shows "length (sources S) = nat \<bar>Ns S\<bar>" "\<forall>row\<in>set (sources S). length row = nat \<bar>Ns S\<bar>"
    "length (potentials S) = nat \<bar>Ns S\<bar>" "\<forall>row\<in>set (potentials S). length row = nat \<bar>Ns S\<bar>"
    "length (source_potentials S) = nat \<bar>Ns S\<bar>"
    "\<forall>row\<in>set (source_potentials S). length row = nat \<bar>Ns S\<bar>"
    "0 < nat \<bar>Ns S\<bar>"
  using assms unfolding wf_grid_def square_def by auto

lemma pinned_flat:
  assumes "wf_grid S" "pinned S" "c < nat ((Ns S)\<^sup>2)" "concat (sources S) ! c"
  shows "concat (potentials S) ! c = concat (source_potentials S) ! c"
proof -
  let ?k = "nat \<bar>Ns S\<bar>"
  note w = wf_grid_rows[OF assms(1)]
  have c: "c < ?k * ?k" using assms(3) by (simp add: nat_sq_abs)
  then have i: "c div ?k < ?k" by (simp add: less_mult_imp_div_less)
  have j: "c mod ?k < ?k" using w(7) by simp
  have e: "c div ?k * ?k + c mod ?k = c" by simp
  have s: "concat (sources S) ! c = sources S ! (c div ?k) ! (c mod ?k)"
    using concat_nth_uniform[OF w(2), of "c div ?k" "c mod ?k"] i j w(1) unfolding e by simp
  have p: "concat (potentials S) ! c = potentials S ! (c div ?k) ! (c mod ?k)"
    using concat_nth_uniform[OF w(4), of "c div ?k" "c mod ?k"] i j w(3) unfolding e by simp
  have q: "concat (source_potentials S) ! c = source_potentials S ! (c div ?k) ! (c mod ?k)"
    using concat_nth_uniform[OF w(6), of "c div ?k" "c mod ?k"] i j w(5) unfolding e by simp
  have "length (sources S ! (c div ?k)) = ?k" using w(1,2) i by simp
  then show ?thesis using assms(2,4) i j w(1) unfolding s p q pinned_def by simp
qed

lemma start_vector_pinned:
  assumes "wf_grid S" "pinned S"
  shows "pinned_vec S (start_vector rnd S)"
  unfolding pinned_vec_def
  using pinned_flat[OF assms] wf_grid_concat[OF assms(1)]
  by (simp add: start_vector_length start_vector_nth)

lemma jacobi_step_pinned:
  assumes "wf_grid S" "pinned S" "keeps_rows linalg_inv" "jacobi_step linalg_inv S = Some sw"
  shows "pinned_vec S (sw x)"
proof -
  from assms(4) obtain T c where
    jm: "jacobi_matrices linalg_inv (fst (method_matrix (Ns S))) (nat ((Ns S)\<^sup>2)) = Some (T, c)"
    and sw: "sw = jacobi_sweep T c (concat (sources S)) (concat (potentials S))"
    by (auto simp: jacobi_step_def split: option.splits)
  have l: "length T = nat ((Ns S)\<^sup>2)" "length c = nat ((Ns S)\<^sup>2)"
    using jacobi_matrices_rows[OF assms(3) jm] by (simp_all add: method_matrix_length)
  show ?thesis unfolding pinned_vec_def
    using pinned_flat[OF assms(1,2)] wf_grid_concat[OF assms(1)] l
    by (simp add: sw jacobi_sweep_length jacobi_sweep_nth)
qed

lemma gauss_seidel_step_pinned:
  assumes "wf_grid S" "pinned S" "keeps_rows linalg_inv" "gauss_seidel_step linalg_inv S = Some sw"
  shows "pinned_vec S (sw x)"
proof -
  from assms(4) obtain T c where
    gm: "gauss_seidel_matrices linalg_inv (fst (method_matrix (Ns S))) (nat ((Ns S)\<^sup>2)) = Some (T, c)"
    and sw: "sw = gauss_seidel_sweep T c (concat (sources S)) (concat (potentials S))"
    by (auto simp: gauss_seidel_step_def split: option.splits)
  have l: "length T = nat ((Ns S)\<^sup>2)" "length c = nat ((Ns S)\<^sup>2)"
    using gauss_seidel_matrices_rows[OF assms(3) gm] by (simp_all add: method_matrix_length)
  show ?thesis unfolding pinned_vec_def
    using pinned_flat[OF assms(1,2)] wf_grid_concat[OF assms(1)] l
    by (simp add: sw gauss_seidel_sweep_length gauss_seidel_sweep_nth)
qed

lemma SOR_step_pinned:
  assumes "wf_grid S" "pinned_vec S x"
  shows "pinned_vec S (SOR_step w S x)"
proof -
  from assms(2) have l: "length x = nat ((Ns S)\<^sup>2)"
    by (simp add: pinned_vec_def wf_grid_concat[OF assms(1)])
  show ?thesis using assms(2) unfolding pinned_vec_def
    by (simp add: SOR_step_def SOR_sweep_length SOR_sweep_source[OF l] wf_grid_concat[OF assms(1)])
qed

lemma funpow_invariant:
  assumes "P x" "\<And>y. P y \<Longrightarrow> P (f y)"
  shows "P ((f ^^ m) x)"
  using assms by (induction m) simp_all

lemma relax_loop_invariant:
  assumes "P x" "\<And>y. P y \<Longrightarrow> P (sweep y)"
  shows "P (fst (relax_loop sweep tol verbose i n x))"
  using assms(1)
proof (induction n arbitrary: x i)
  case 0
  then show ?case by simp
next
  case (Suc n)
  have "P (sweep x)" using Suc.prems by (rule assms(2))
  from Suc.IH[OF this] \<open>P (sweep x)\<close> show ?case by (simp add: Let_def)
qed

lemma store_pinned:
  assumes "wf_grid S" "pinned_vec S x" "store_potentials (create_method_matrix S) x out = Inr (S', out')"
  shows "pinned S'"
proof -
  let ?k = "nat \<bar>Ns S\<bar>"
  note w = wf_grid_rows[OF assms(1)]
  from assms(2) have l: "length x = ?k * ?k"
    by (simp add: pinned_vec_def wf_grid_concat[OF assms(1)] nat_sq_abs)
  from assms(3) obtain P where P: "np_reshape (Ns S) x = Some P"
    and S': "S' = (create_method_matrix S)\<lparr>potentials := P\<rparr>"
    by (auto simp: store_potentials_def create_method_matrix_fields split: option.splits)
  from P have pos: "0 < Ns S" by (auto simp: np_reshape_def split: if_splits)
  then have k: "?k = nat (Ns S)" by simp
  have Pc: "P = chunks ?k ?k x"
    using P np_reshape_square[OF pos, of x] l unfolding k by simp
  show ?thesis unfolding pinned_def
  proof (intro allI impI)
    fix i j assume i: "i < length (sources S')" and j: "j < length (sources S' ! i)"
      and s: "sources S' ! i ! j"
    have i': "i < ?k" using i w(1) by (simp add: S' create_method_matrix_fields)
    have "length (sources S ! i) = ?k" using w(1,2) i' by simp
    then have j': "j < ?k" using j by (simp add: S' create_method_matrix_fields)
    have c: "i * ?k + j < nat ((Ns S)\<^sup>2)" unfolding nat_sq_abs using i' j' by (rule flat_lt)
    have sf: "concat (sources S) ! (i * ?k + j)"
      using concat_nth_uniform[OF w(2), of i j] i' j' w(1) s by (simp add: S' create_method_matrix_fields)
    have "potentials S' ! i ! j = x ! (i * ?k + j)"
      by (simp add: S' Pc chunks_nth[OF l i' j'])
    also have "\<dots> = concat (source_potentials S) ! (i * ?k + j)"
      using assms(2) c sf by (simp add: pinned_vec_def wf_grid_concat[OF assms(1)])
    also have "\<dots> = source_potentials S ! i ! j"
      using concat_nth_uniform[OF w(6), of i j] i' j' w(5) by simp
    finally show "potentials S' ! i ! j = source_potentials S' ! i ! j"
      by (simp add: S' create_method_matrix_fields)
  qed
qed

lemma store_wf:
  assumes "wf_grid S" "pinned_vec S x" "store_potentials (create_method_matrix S) x out = Inr (S', out')"
  shows "wf_grid S'"
proof -
  let ?k = "nat \<bar>Ns S\<bar>"
  from assms(2) have l: "length x = ?k * ?k"
    by (simp add: pinned_vec_def wf_grid_concat[OF assms(1)] nat_sq_abs)
  from assms(3) obtain P where P: "np_reshape (Ns S) x = Some P"
    and S': "S' = (create_method_matrix S)\<lparr>potentials := P\<rparr>"
    by (auto simp: store_potentials_def create_method_matrix_fields split: option.splits)
  from P have pos: "0 < Ns S" by (auto simp: np_reshape_def split: if_splits)
  then have k: "?k = nat (Ns S)" by simp
  have Pc: "P = chunks ?k ?k x"
    using P np_reshape_square[OF pos, of x] l unfolding k by simp
  show ?thesis using assms(1) chunks_square[OF l]
    by (simp add: wf_grid_def S' Pc create_method_matrix_fields)
qed

lemma one_point_closest:
  "Ns s = 1 \<Longrightarrow> find_closest_gridpoint s (0, 0) = Some (0, 0)"
  by (simp add: find_closest_gridpoint_def where_min_def most_common_first_def grid_coord_def)

lemma one_point_shape:
  "Shape_init (PyInt 1) 7 (0, 0) [] \<lparr>kw_shape = None, kw_filled = None\<rparr> =
     Inr (\<lparr>Ns = 1, h = 1, potentials = [[7]], sources = [[True]], source_potentials = [[7]],
           potential = 7\<rparr>, [])"
  by (simp add: Shape_init_def add_source_def add_point_def one_point_closest in_array_def
      np_zeros2_def mark_def set2_def)

lemma one_cell_system:
  "System_init (PyInt 1) =
     Inr \<lparr>Ns = 1, h = 1, potentials = [[0]], sources = [[False]], source_potentials = [[0]],
          A = None, boundary_conditions = None\<rparr>"
  by (simp add: System_init_def np_zeros2_def)

lemma one_source_add:
  "add \<lparr>Ns = 1, h = 1, potentials = [[0]], sources = [[False]], source_potentials = [[0]],
          A = None, boundary_conditions = None\<rparr>
       \<lparr>Ns = 1, h = 1, potentials = [[7]], sources = [[True]], source_potentials = [[7]],
           potential = 7\<rparr> =
     Inr \<lparr>Ns = 1, h = 1, potentials = [[7]], sources = [[True]], source_potentials = [[7]],
          A = None, boundary_conditions = None\<rparr>"
  by (simp add: add_def)

lemma one_source_populated:
  "populated \<lparr>Ns = 1, h = 1, potentials = [[7]], sources = [[True]], source_potentials = [[7]],
          A = None, boundary_conditions = None\<rparr>"
  by (rule populated.added[OF populated.fresh[OF one_cell_system] one_point_shape one_source_add])

text \<open>
  Claim C1, as amended to the life cycle of a System. A System that has not been solved (a
  new System to which Shapes have been added, each built by the Shape constructor) is
  well formed and holds the source potential at every cell of the source mask: this is
  the invariant after every \<open>System.add\<close> made before a solve. From any well-formed
  System with the invariant, the solution vector of each of the three methods holds the
  source potential at every source cell at the start and after every number \<open>m\<close> of
  completed sweeps, and the System that a method returns is well formed and has the
  invariant again. \<open>np.linalg.inv\<close> is assumed to return as many rows as it is given.
\<close>

theorem source_cells_stay_pinned:
  "(populated S \<longrightarrow> wf_grid S \<and> pinned S)
   \<and> (wf_grid S \<and> pinned S \<and> keeps_rows linalg_inv \<longrightarrow>
        (\<forall>sw m. jacobi_step linalg_inv S = Some sw \<longrightarrow>
            pinned_vec S ((sw ^^ m) (start_vector rnd S)))
      \<and> (\<forall>sw m. gauss_seidel_step linalg_inv S = Some sw \<longrightarrow>
            pinned_vec S ((sw ^^ m) (start_vector rnd S)))
      \<and> (\<forall>m. pinned_vec S ((SOR_step w S ^^ m) (start_vector rnd S)))
      \<and> (\<forall>S' out. jacobi linalg_inv rnd tol max_iter verbose S = Inr (S', out) \<longrightarrow>
            wf_grid S' \<and> pinned S')
      \<and> (\<forall>S' out. gauss_seidel linalg_inv rnd tol max_iter verbose S = Inr (S', out) \<longrightarrow>
            wf_grid S' \<and> pinned S')
      \<and> (\<forall>S' out. SOR rnd w tol max_iter verbose S = Inr (S', out) \<longrightarrow>
            wf_grid S' \<and> pinned S'))"
proof (intro conjI impI allI)
  assume "populated S"
  from populated_inv[OF this] show "wf_grid S" "pinned S" by (simp_all add: equal_pinned)
next
  fix sw m
  assume a: "wf_grid S \<and> pinned S \<and> keeps_rows linalg_inv" and s: "jacobi_step linalg_inv S = Some sw"
  from a have w: "wf_grid S" "pinned S" "keeps_rows linalg_inv" by blast+
  show "pinned_vec S ((sw ^^ m) (start_vector rnd S))"
    by (rule funpow_invariant[where P = "pinned_vec S", OF start_vector_pinned[OF w(1,2)]]) (rule jacobi_step_pinned[OF w s])
next
  fix sw m
  assume a: "wf_grid S \<and> pinned S \<and> keeps_rows linalg_inv" and s: "gauss_seidel_step linalg_inv S = Some sw"
  from a have w: "wf_grid S" "pinned S" "keeps_rows linalg_inv" by blast+
  show "pinned_vec S ((sw ^^ m) (start_vector rnd S))"
    by (rule funpow_invariant[where P = "pinned_vec S", OF start_vector_pinned[OF w(1,2)]]) (rule gauss_seidel_step_pinned[OF w s])
next
  fix m
  assume a: "wf_grid S \<and> pinned S \<and> keeps_rows linalg_inv"
  from a have w: "wf_grid S" "pinned S" by blast+
  show "pinned_vec S ((SOR_step w S ^^ m) (start_vector rnd S))"
    by (rule funpow_invariant[where P = "pinned_vec S", OF start_vector_pinned[OF w]]) (rule SOR_step_pinned[OF w(1)])
next
  fix S' out
  assume a: "wf_grid S \<and> pinned S \<and> keeps_rows linalg_inv"
    and r: "jacobi linalg_inv rnd tol max_iter verbose S = Inr (S', out)"
  from a have w: "wf_grid S" "pinned S" "keeps_rows linalg_inv" by blast+
  from r obtain sw where s: "jacobi_step linalg_inv S = Some sw"
    unfolding jacobi_unfold by (cases "jacobi_step linalg_inv S") simp_all
  have p: "pinned_vec S (fst (relax_loop sw tol verbose 0 (nat max_iter) (start_vector rnd S)))"
    by (rule relax_loop_invariant[where P = "pinned_vec S", OF start_vector_pinned[OF w(1,2)]]) (rule jacobi_step_pinned[OF w s])
  from r have st: "store_potentials (create_method_matrix S)
            (fst (relax_loop sw tol verbose 0 (nat max_iter) (start_vector rnd S)))
            ([Text ''Jacobi: finished creating matrices''] @
             snd (relax_loop sw tol verbose 0 (nat max_iter) (start_vector rnd S))) = Inr (S', out)"
    unfolding jacobi_unfold s by simp
  show "wf_grid S'" by (rule store_wf[OF w(1) p st])
  show "pinned S'" by (rule store_pinned[OF w(1) p st])
next
  fix S' out
  assume a: "wf_grid S \<and> pinned S \<and> keeps_rows linalg_inv"
    and r: "gauss_seidel linalg_inv rnd tol max_iter verbose S = Inr (S', out)"
  from a have w: "wf_grid S" "pinned S" "keeps_rows linalg_inv" by blast+
  from r obtain sw where s: "gauss_seidel_step linalg_inv S = Some sw"
    unfolding gauss_seidel_unfold by (cases "gauss_seidel_step linalg_inv S") simp_all
  have p: "pinned_vec S (fst (relax_loop sw tol verbose 0 (nat max_iter) (start_vector rnd S)))"
    by (rule relax_loop_invariant[where P = "pinned_vec S", OF start_vector_pinned[OF w(1,2)]])
      (rule gauss_seidel_step_pinned[OF w s])
  from r have st: "store_potentials (create_method_matrix S)
            (fst (relax_loop sw tol verbose 0 (nat max_iter) (start_vector rnd S)))
            ([Text ''Gauss Seidel: finished creating matrices''] @
             snd (relax_loop sw tol verbose 0 (nat max_iter) (start_vector rnd S))) = Inr (S', out)"
    unfolding gauss_seidel_unfold s by simp
  show "wf_grid S'" by (rule store_wf[OF w(1) p st])
  show "pinned S'" by (rule store_pinned[OF w(1) p st])
next
  fix S' out
  assume a: "wf_grid S \<and> pinned S \<and> keeps_rows linalg_inv"
    and r: "SOR rnd w tol max_iter verbose S = Inr (S', out)"
  from a have w: "wf_grid S" "pinned S" by blast+
  have p: "pinned_vec S (fst (relax_loop (SOR_step w S) tol verbose 0 (nat max_iter) (start_vector rnd S)))"
    by (rule relax_loop_invariant[where P = "pinned_vec S", OF start_vector_pinned[OF w]]) (rule SOR_step_pinned[OF w(1)])
  note st = r[unfolded SOR_unfold]
  show "wf_grid S'" by (rule store_wf[OF w(1) p st])
  show "pinned S'" by (rule store_pinned[OF w(1) p st])
qed

text \<open>The System of one cell with a point source of potential 7 added, three sweeps of
  jacobi on it, and the System that jacobi returns.\<close>

theorem source_cells_stay_pinned_witness:
  "populated \<lparr>Ns = 1, h = 1, potentials = [[7]], sources = [[True]], source_potentials = [[7]],
          A = None, boundary_conditions = None\<rparr>
   \<and> pinned \<lparr>Ns = 1, h = 1, potentials = [[7]], sources = [[True]], source_potentials = [[7]],
          A = None, boundary_conditions = None\<rparr>
   \<and> pinned_vec \<lparr>Ns = 1, h = 1, potentials = [[7]], sources = [[True]], source_potentials = [[7]],
          A = None, boundary_conditions = None\<rparr>
        ((jacobi_sweep [[0]] [0] [True] [7] ^^ 3) [7])
   \<and> pinned \<lparr>Ns = 1, h = 1, potentials = [[7]], sources = [[True]],
           source_potentials = [[7]], A = Some [[- 4]],
           boundary_conditions = Some [[(0, - 1), (0, 1), (- 1, 0), (1, 0)]]\<rparr>"
proof -
  let ?S = "\<lparr>Ns = 1, h = 1, potentials = [[7]], sources = [[True]], source_potentials = [[7]],
          A = None, boundary_conditions = None\<rparr> :: System"
  let ?inv = "\<lambda>M :: mat. Some (map (map inverse) M)"
  note T = source_cells_stay_pinned[of ?S ?inv "\<lambda>k. 0" 1 "1 / 2" 5 True]
  have k: "keeps_rows ?inv" by (auto simp: keeps_rows_def)
  from T one_source_populated have w: "wf_grid ?S" "pinned ?S" by blast+
  from T w k one_source_jacobi_step
  have 1: "pinned_vec ?S ((jacobi_sweep [[0]] [0] [True] [7] ^^ 3) (start_vector (\<lambda>k. 0) ?S))"
    by blast
  from T w k one_source_jacobi[of "\<lambda>k. 0"]
  have 2: "pinned \<lparr>Ns = 1, h = 1, potentials = [[7]], sources = [[True]],
           source_potentials = [[7]], A = Some [[- 4]],
           boundary_conditions = Some [[(0, - 1), (0, 1), (- 1, 0), (1, 0)]]\<rparr>"
    by blast
  show ?thesis using one_source_populated w(2) 1 2 unfolding one_source_start by blast
qed

lemma relax_loop_single_quiet: "relax_loop sweep tol False i (Suc 0) x = (sweep x, [])"
  by (simp add: Let_def)

lemma two_by_two_system:
  "System_init (PyInt 2) =
     Inr \<lparr>Ns = 2, h = 1 / 2, potentials = [[0, 0], [0, 0]],
          sources = [[False, False], [False, False]],
          source_potentials = [[0, 0], [0, 0]], A = None, boundary_conditions = None\<rparr>"
  by (simp add: System_init_def Let_def np_zeros2_def numeral_2_eq_2)

lemma two_by_two_add_point:
  "add_point \<lparr>Ns = 2, h = 1 / 2, potentials = [[0, 0], [0, 0]],
           sources = [[False, False], [False, False]],
           source_potentials = [[0, 0], [0, 0]], potential = 4\<rparr> (0, 0) =
     Inr \<lparr>Ns = 2, h = 1 / 2, potentials = [[4, 0], [0, 0]],
           sources = [[True, False], [False, False]],
           source_potentials = [[4, 0], [0, 0]], potential = 4\<rparr>"
  "add_point \<lparr>Ns = 2, h = 1 / 2, potentials = [[0, 0], [0, 0]],
           sources = [[False, False], [False, False]],
           source_potentials = [[0, 0], [0, 0]], potential = 5\<rparr> (0, 1) =
     Inr \<lparr>Ns = 2, h = 1 / 2, potentials = [[0, 5], [0, 0]],
           sources = [[False, True], [False, False]],
           source_potentials = [[0, 5], [0, 0]], potential = 5\<rparr>"
  by code_simp+

lemma two_by_two_points:
  "Shape_init (PyInt 2) 4 (0, 0) [] \<lparr>kw_shape = None, kw_filled = None\<rparr> =
     Inr (\<lparr>Ns = 2, h = 1 / 2, potentials = [[4, 0], [0, 0]],
           sources = [[True, False], [False, False]],
           source_potentials = [[4, 0], [0, 0]], potential = 4\<rparr>, [])"
  "Shape_init (PyInt 2) 5 (0, 1) [] \<lparr>kw_shape = None, kw_filled = None\<rparr> =
     Inr (\<lparr>Ns = 2, h = 1 / 2, potentials = [[0, 5], [0, 0]],
           sources = [[False, True], [False, False]],
           source_potentials = [[0, 5], [0, 0]], potential = 5\<rparr>, [])"
proof -
  have z: "np_zeros2 (nat \<bar>2\<bar>) (nat \<bar>2\<bar>) = [[0, 0], [0, 0]]"
    "replicate (nat \<bar>2\<bar>) (replicate (nat \<bar>2\<bar>) False) = [[False, False], [False, False]]"
    by (simp_all add: np_zeros2_def numeral_2_eq_2)
  have o: "1 / real_of_int 2 = 1 / 2" by simp
  show "Shape_init (PyInt 2) 4 (0, 0) [] \<lparr>kw_shape = None, kw_filled = None\<rparr> =
     Inr (\<lparr>Ns = 2, h = 1 / 2, potentials = [[4, 0], [0, 0]],
           sources = [[True, False], [False, False]],
           source_potentials = [[4, 0], [0, 0]], potential = 4\<rparr>, [])"
    unfolding Shape_init_def add_source_def Let_def pyval.case z o
    by (simp only: two_by_two_add_point) simp
  show "Shape_init (PyInt 2) 5 (0, 1) [] \<lparr>kw_shape = None, kw_filled = None\<rparr> =
     Inr (\<lparr>Ns = 2, h = 1 / 2, potentials = [[0, 5], [0, 0]],
           sources = [[False, True], [False, False]],
           source_potentials = [[0, 5], [0, 0]], potential = 5\<rparr>, [])"
    unfolding Shape_init_def add_source_def Let_def pyval.case z o
    by (simp only: two_by_two_add_point) simp
qed

lemma two_by_two_added:
  "add \<lparr>Ns = 2, h = 1 / 2, potentials = [[0, 0], [0, 0]],
          sources = [[False, False], [False, False]],
          source_potentials = [[0, 0], [0, 0]], A = None, boundary_conditions = None\<rparr>
       \<lparr>Ns = 2, h = 1 / 2, potentials = [[4, 0], [0, 0]],
           sources = [[True, False], [False, False]],
           source_potentials = [[4, 0], [0, 0]], potential = 4\<rparr> =
     Inr \<lparr>Ns = 2, h = 1 / 2, potentials = [[4, 0], [0, 0]],
          sources = [[True, False], [False, False]],
          source_potentials = [[4, 0], [0, 0]], A = None, boundary_conditions = None\<rparr>"
  by code_simp

lemma two_by_two_populated:
  "populated \<lparr>Ns = 2, h = 1 / 2, potentials = [[4, 0], [0, 0]],
          sources = [[True, False], [False, False]],
          source_potentials = [[4, 0], [0, 0]], A = None, boundary_conditions = None\<rparr>"
  by (rule populated.added[OF populated.fresh[OF two_by_two_system] two_by_two_points(1)
        two_by_two_added])

lemma two_by_two_sweep:
  "store_potentials
     (create_method_matrix \<lparr>Ns = 2, h = 1 / 2, potentials = [[4, 0], [0, 0]],
          sources = [[True, False], [False, False]],
          source_potentials = [[4, 0], [0, 0]], A = None, boundary_conditions = None\<rparr>)
     (SOR_step 1 \<lparr>Ns = 2, h = 1 / 2, potentials = [[4, 0], [0, 0]],
          sources = [[True, False], [False, False]],
          source_potentials = [[4, 0], [0, 0]], A = None, boundary_conditions = None\<rparr>
        (start_vector (\<lambda>k. 0) \<lparr>Ns = 2, h = 1 / 2, potentials = [[4, 0], [0, 0]],
          sources = [[True, False], [False, False]],
          source_potentials = [[4, 0], [0, 0]], A = None, boundary_conditions = None\<rparr>)) []
   = Inr (\<lparr>Ns = 2, h = 1 / 2, potentials = [[4, 1], [1, 1 / 2]],
          sources = [[True, False], [False, False]],
          source_potentials = [[4, 0], [0, 0]],
          A = Some [[- 4, 1, 1, 0], [1, - 4, 0, 1], [1, 0, - 4, 1], [0, 1, 1, - 4]],
          boundary_conditions =
            Some [[(0, - 1), (- 1, 0)], [(0, 2), (- 1, 1)], [(1, - 1), (2, 0)], [(1, 2), (2, 1)]]\<rparr>,
          [])"
  by code_simp

text \<open>
  Claim C1 as stated fails for a System that has been solved. On the grid of 2 by 2 cells
  with a point source of potential 4 at cell (0, 0), one sweep of SOR with \<open>w = 1\<close> from
  the start values 0 leaves the relaxed value 1 at cell (0, 1), which is not a source, so
  \<open>source_potentials\<close> holds 0 there. Adding the point Shape of potential 5 at that cell
  sums both arrays: the cell is now in the source mask with potential 1 + 5 = 6 against
  the source potential 5.
\<close>

theorem add_after_solve_counterexample:
  "populated \<lparr>Ns = 2, h = 1 / 2, potentials = [[4, 0], [0, 0]],
          sources = [[True, False], [False, False]],
          source_potentials = [[4, 0], [0, 0]], A = None, boundary_conditions = None\<rparr>
   \<and> SOR (\<lambda>k. 0) 1 0 1 False
        \<lparr>Ns = 2, h = 1 / 2, potentials = [[4, 0], [0, 0]],
          sources = [[True, False], [False, False]],
          source_potentials = [[4, 0], [0, 0]], A = None, boundary_conditions = None\<rparr>
      = Inr (\<lparr>Ns = 2, h = 1 / 2, potentials = [[4, 1], [1, 1 / 2]],
          sources = [[True, False], [False, False]],
          source_potentials = [[4, 0], [0, 0]],
          A = Some [[- 4, 1, 1, 0], [1, - 4, 0, 1], [1, 0, - 4, 1], [0, 1, 1, - 4]],
          boundary_conditions =
            Some [[(0, - 1), (- 1, 0)], [(0, 2), (- 1, 1)], [(1, - 1), (2, 0)], [(1, 2), (2, 1)]]\<rparr>,
          [])
   \<and> Shape_init (PyInt 2) 5 (0, 1) [] \<lparr>kw_shape = None, kw_filled = None\<rparr> =
       Inr (\<lparr>Ns = 2, h = 1 / 2, potentials = [[0, 5], [0, 0]],
           sources = [[False, True], [False, False]],
           source_potentials = [[0, 5], [0, 0]], potential = 5\<rparr>, [])
   \<and> add \<lparr>Ns = 2, h = 1 / 2, potentials = [[4, 1], [1, 1 / 2]],
          sources = [[True, False], [False, False]],
          source_potentials = [[4, 0], [0, 0]],
          A = Some [[- 4, 1, 1, 0], [1, - 4, 0, 1], [1, 0, - 4, 1], [0, 1, 1, - 4]],
          boundary_conditions =
            Some [[(0, - 1), (- 1, 0)], [(0, 2), (- 1, 1)], [(1, - 1), (2, 0)], [(1, 2), (2, 1)]]\<rparr>
        \<lparr>Ns = 2, h = 1 / 2, potentials = [[0, 5], [0, 0]],
           sources = [[False, True], [False, False]],
           source_potentials = [[0, 5], [0, 0]], potential = 5\<rparr>
      = Inr \<lparr>Ns = 2, h = 1 / 2, potentials = [[4, 6], [1, 1 / 2]],
          sources = [[True, True], [False, False]],
          source_potentials = [[4, 5], [0, 0]],
          A = Some [[- 4, 1, 1, 0], [1, - 4, 0, 1], [1, 0, - 4, 1], [0, 1, 1, - 4]],
          boundary_conditions =
            Some [[(0, - 1), (- 1, 0)], [(0, 2), (- 1, 1)], [(1, - 1), (2, 0)], [(1, 2), (2, 1)]]\<rparr>
   \<and> \<not> pinned \<lparr>Ns = 2, h = 1 / 2, potentials = [[4, 6], [1, 1 / 2]],
          sources = [[True, True], [False, False]],
          source_potentials = [[4, 5], [0, 0]],
          A = Some [[- 4, 1, 1, 0], [1, - 4, 0, 1], [1, 0, - 4, 1], [0, 1, 1, - 4]],
          boundary_conditions =
            Some [[(0, - 1), (- 1, 0)], [(0, 2), (- 1, 1)], [(1, - 1), (2, 0)], [(1, 2), (2, 1)]]\<rparr>"
proof -
  let ?S = "\<lparr>Ns = 2, h = 1 / 2, potentials = [[4, 0], [0, 0]],
          sources = [[True, False], [False, False]],
          source_potentials = [[4, 0], [0, 0]], A = None, boundary_conditions = None\<rparr> :: System"
  let ?S'' = "\<lparr>Ns = 2, h = 1 / 2, potentials = [[4, 6], [1, 1 / 2]],
          sources = [[True, True], [False, False]],
          source_potentials = [[4, 5], [0, 0]],
          A = Some [[- 4, 1, 1, 0], [1, - 4, 0, 1], [1, 0, - 4, 1], [0, 1, 1, - 4]],
          boundary_conditions =
            Some [[(0, - 1), (- 1, 0)], [(0, 2), (- 1, 1)], [(1, - 1), (2, 0)], [(1, 2), (2, 1)]]\<rparr> :: System"
  have n1: "nat 1 = Suc 0" by simp
  have solve: "SOR (\<lambda>k. 0) 1 0 1 False ?S
      = Inr (\<lparr>Ns = 2, h = 1 / 2, potentials = [[4, 1], [1, 1 / 2]],
          sources = [[True, False], [False, False]],
          source_potentials = [[4, 0], [0, 0]],
          A = Some [[- 4, 1, 1, 0], [1, - 4, 0, 1], [1, 0, - 4, 1], [0, 1, 1, - 4]],
          boundary_conditions =
            Some [[(0, - 1), (- 1, 0)], [(0, 2), (- 1, 1)], [(1, - 1), (2, 0)], [(1, 2), (2, 1)]]\<rparr>,
          [])"
    unfolding SOR_unfold n1 relax_loop_single_quiet fst_conv snd_conv append_Nil
    by (rule two_by_two_sweep)
  have "\<not> (sources ?S'' ! 0 ! 1 \<longrightarrow> potentials ?S'' ! 0 ! 1 = source_potentials ?S'' ! 0 ! 1)"
    by simp
  then have np: "\<not> pinned ?S''" unfolding pinned_def
    by (intro notI) (drule spec[of _ 0], drule mp, simp, drule spec[of _ 1], drule mp, simp, simp)
  have ad: "add \<lparr>Ns = 2, h = 1 / 2, potentials = [[4, 1], [1, 1 / 2]],
          sources = [[True, False], [False, False]],
          source_potentials = [[4, 0], [0, 0]],
          A = Some [[- 4, 1, 1, 0], [1, - 4, 0, 1], [1, 0, - 4, 1], [0, 1, 1, - 4]],
          boundary_conditions =
            Some [[(0, - 1), (- 1, 0)], [(0, 2), (- 1, 1)], [(1, - 1), (2, 0)], [(1, 2), (2, 1)]]\<rparr>
        \<lparr>Ns = 2, h = 1 / 2, potentials = [[0, 5], [0, 0]],
           sources = [[False, True], [False, False]],
           source_potentials = [[0, 5], [0, 0]], potential = 5\<rparr> = Inr ?S''"
    by (simp add: add_def)
  show ?thesis using two_by_two_populated solve two_by_two_points(2) ad np by (intro conjI)
qed

subsection \<open>C6: the Jacobi sweep\<close>

lemma sum_list_single:
  fixes g :: "nat \<Rightarrow> real"
  assumes "i < n" "\<And>k. k < n \<Longrightarrow> k \<noteq> i \<Longrightarrow> g k = 0"
  shows "(\<Sum>k\<leftarrow>[0..<n]. g k) = g i"
proof -
  have "(\<Sum>k\<leftarrow>[0..<n]. g k) = sum g {0..<n}"
    by (simp add: interv_sum_list_conv_sum_set_nat)
  also have "\<dots> = sum (\<lambda>k. if k = i then g i else 0) {0..<n}"
    by (rule sum.cong) (use assms(2) in auto)
  also have "\<dots> = g i" using assms(1) by simp
  finally show ?thesis .
qed

lemma sum_list_zero:
  fixes g :: "nat \<Rightarrow> real"
  assumes "\<And>k. k < n \<Longrightarrow> g k = 0"
  shows "(\<Sum>k\<leftarrow>[0..<n]. g k) = 0"
proof -
  have "(\<Sum>k\<leftarrow>[0..<n]. g k) = sum g {0..<n}"
    by (simp add: interv_sum_list_conv_sum_set_nat)
  also have "\<dots> = 0" by (rule sum.neutral) (use assms in auto)
  finally show ?thesis .
qed

lemma np_diag_diag_nth:
  "i < length M \<Longrightarrow> j < length M \<Longrightarrow> np_diag_diag M ! i ! j = (if i = j then M ! i ! j else 0)"
  by (simp add: np_diag_diag_def)

lemma ncols_length: "M \<noteq> [] \<Longrightarrow> ncols M = length (M ! 0)"
  by (cases M) (simp_all add: ncols_def)

lemma np_dot_mm_nth:
  assumes "i < length M1" "j < ncols M2"
  shows "np_dot_mm M1 M2 ! i ! j = (\<Sum>k\<leftarrow>[0..<length M2]. M1 ! i ! k * M2 ! k ! j)"
  using assms by (simp add: np_dot_mm_def)

lemma square_ncols: "square n M \<Longrightarrow> ncols M = n"
  by (cases M) (auto simp: ncols_def square_def)

lemma square_nth_length: "square n M \<Longrightarrow> i < n \<Longrightarrow> length (M ! i) = n"
  by (auto simp: square_def)

text \<open>The inverse of the diagonal matrix with \<open>d\<close> on the diagonal.\<close>

lemma inverse_of_diagonal:
  assumes "is_inverse D Di" "length D = n" "\<And>i j. i < n \<Longrightarrow> j < n \<Longrightarrow> D ! i ! j = (if i = j then d else 0)"
    "i < n" "j < n"
  shows "d * Di ! i ! j = (if i = j then 1 else 0)"
proof -
  from assms(1,2) have sq: "square n Di" and dot: "np_dot_mm D Di = identity n"
    by (simp_all add: is_inverse_def)
  have l: "length Di = n" using sq by (simp add: square_def)
  have "np_dot_mm D Di ! i ! j = (\<Sum>k\<leftarrow>[0..<n]. D ! i ! k * Di ! k ! j)"
    using np_dot_mm_nth[of i D j Di] assms(2,4,5) square_ncols[OF sq] l by simp
  also have "\<dots> = D ! i ! i * Di ! i ! j"
    by (rule sum_list_single[OF assms(4)]) (simp add: assms(3,4))
  also have "\<dots> = d * Di ! i ! j" using assms(3,4) by simp
  finally have "np_dot_mm D Di ! i ! j = d * Di ! i ! j" .
  moreover have "identity n ! i ! j = (if i = j then 1 else 0)"
    using assms(4,5) by (simp add: identity_def)
  ultimately show ?thesis using dot by simp
qed

lemma self_not_neighbour:
  fixes m i :: nat
  assumes "0 < m" "i < m * m"
  shows "int i \<notin> set (neighbour_indices (int m) i)"
proof -
  note nf = nbr_facts[OF assms]
  have "\<not> ((i mod m \<noteq> 0 \<and> i = i - 1) \<or> (i mod m \<noteq> m - 1 \<and> i = i + 1)
            \<or> (i div m \<noteq> 0 \<and> i = i - m) \<or> (i div m \<noteq> m - 1 \<and> i = i + m))"
    using nf(1,3) assms(1) by auto
  then show ?thesis unfolding neighbour_indices_iff[OF assms] .
qed

lemma L_plus_U_nth:
  assumes "square n M" "i < n" "j < n"
  shows "mat_add (np_tril M (- 1)) (np_triu M 1) ! i ! j = (if i = j then 0 else M ! i ! j)"
proof -
  have l: "length M = n" "length (M ! i) = n" using assms(1,2) by (auto simp: square_def)
  show ?thesis using l assms(2,3) by (auto simp: mat_add_def np_tril_def np_triu_def)
qed

lemma L_plus_U_square:
  assumes "square n M"
  shows "square n (mat_add (np_tril M (- 1)) (np_triu M 1))"
  using assms by (auto simp: square_def mat_add_def np_tril_def np_triu_def set_zip)

lemma method_matrix_square:
  assumes "0 < m" shows "square (m * m) (fst (method_matrix (int m)))"
  using method_matrix_dims[OF assms] by (auto simp: square_def set_conv_nth)

lemma np_dot_mv_zero:
  "np_dot_mv M (replicate n 0) = replicate (length M) 0"
proof -
  have "(\<Sum>k\<leftarrow>[0..<n]. row ! k * replicate n 0 ! k) = (0::real)" for row :: "real list"
    by (rule sum_list_zero) simp
  then show ?thesis by (simp add: np_dot_mv_def map_replicate_const)
qed

lemma np_dot_mv_nth:
  "k < length M \<Longrightarrow> np_dot_mv M x ! k = (\<Sum>j\<leftarrow>[0..<length x]. M ! k ! j * x ! j)"
  by (simp add: np_dot_mv_def)

lemma jacobi_T_nth:
  fixes m :: nat
  assumes m: "0 < m" and inv: "is_inverse (np_diag_diag (fst (method_matrix (int m)))) Di"
    and k: "k < m * m" and j: "j < m * m"
  shows "mat_neg (np_dot_mm Di (mat_add (np_tril (fst (method_matrix (int m))) (- 1))
                                   (np_triu (fst (method_matrix (int m))) 1))) ! k ! j
         = (if int j \<in> set (neighbour_indices (int m) k) then 1 / 4 else 0)"
proof -
  let ?A = "fst (method_matrix (int m))"
  let ?LU = "mat_add (np_tril ?A (- 1)) (np_triu ?A 1)"
  let ?n = "m * m"
  have sqA: "square ?n ?A" by (rule method_matrix_square[OF m])
  have lA: "length ?A = ?n" using sqA by (simp add: square_def)
  have lD: "length (np_diag_diag ?A) = ?n" by (simp add: np_diag_diag_def lA)
  have Dn: "\<And>a b. a < ?n \<Longrightarrow> b < ?n \<Longrightarrow> np_diag_diag ?A ! a ! b = (if a = b then - 4 else 0)"
    using method_matrix_nth[OF m] by (simp add: np_diag_diag_nth lA)
  have Di: "\<And>a b. a < ?n \<Longrightarrow> b < ?n \<Longrightarrow> - 4 * Di ! a ! b = (if a = b then 1 else 0)"
    by (rule inverse_of_diagonal[OF inv lD Dn])
  have Di': "\<And>a b. a < ?n \<Longrightarrow> b < ?n \<Longrightarrow> Di ! a ! b = (if a = b then - (1 / 4) else 0)"
  proof -
    fix a b assume "a < ?n" "b < ?n"
    from Di[OF this] show "Di ! a ! b = (if a = b then - (1 / 4) else 0)"
      by (cases "a = b") simp_all
  qed
  from inv lD have sqDi: "square ?n Di" by (simp add: is_inverse_def)
  have lDi: "length Di = ?n" using sqDi by (simp add: square_def)
  have sqLU: "square ?n ?LU" by (rule L_plus_U_square[OF sqA])
  have lLU: "length ?LU = ?n" using sqLU by (simp add: square_def)
  have "np_dot_mm Di ?LU ! k ! j = (\<Sum>a\<leftarrow>[0..<?n]. Di ! k ! a * ?LU ! a ! j)"
    using np_dot_mm_nth[of k Di j ?LU] k j lDi square_ncols[OF sqLU] lLU by simp
  also have "\<dots> = Di ! k ! k * ?LU ! k ! j"
    by (rule sum_list_single[OF k]) (simp add: Di' k)
  also have "\<dots> = - (1 / 4) * (if k = j then 0 else ?A ! k ! j)"
    using Di'[OF k k] L_plus_U_nth[OF sqA k j] by simp
  also have "\<dots> = - (if int j \<in> set (neighbour_indices (int m) k) then 1 / 4 else 0)"
    using method_matrix_nth[OF m k j] self_not_neighbour[OF m k] by auto
  finally have e: "np_dot_mm Di ?LU ! k ! j =
      - (if int j \<in> set (neighbour_indices (int m) k) then 1 / 4 else 0)" .
  have lr: "length (np_dot_mm Di ?LU ! k) = ?n"
    using k lDi square_ncols[OF sqLU] by (simp add: np_dot_mm_def)
  have "mat_neg (np_dot_mm Di ?LU) ! k ! j = - (np_dot_mm Di ?LU ! k ! j)"
    using k j lDi lr by (simp add: mat_neg_def np_dot_mm_def)
  then show ?thesis unfolding e by simp
qed

text \<open>
  Claim C6. Let \<open>np.linalg.inv\<close> return the inverse \<open>Di\<close> of the diagonal part \<open>D\<close> of the
  matrix of a System with positive \<open>Ns\<close>. Then jacobi sweeps with \<open>T = -Di (L + U)\<close> and
  with \<open>Di b\<close>, where \<open>b\<close> is all zero and so is \<open>Di b\<close>; the entry of \<open>T\<close> in row \<open>k\<close> is
  \<open>1/4\<close> at the neighbours of cell \<open>k\<close> on the grid and zero elsewhere. A sweep is
  \<open>T x + Di b\<close> computed from the old vector \<open>x\<close> alone, followed by the write of the
  source cells: at every cell \<open>k\<close> outside the source mask the new value is
  \<open>\<Sum>j. T[k,j] * x[j]\<close> plus the zero entry of \<open>Di b\<close>.
\<close>

theorem jacobi_sweep_matrix_form:
  assumes "0 < Ns S"
    and "linalg_inv (np_diag_diag (fst (method_matrix (Ns S)))) = Some Di"
    and "is_inverse (np_diag_diag (fst (method_matrix (Ns S)))) Di"
  shows "\<exists>T.
      T = mat_neg (np_dot_mm Di (mat_add (np_tril (fst (method_matrix (Ns S))) (- 1))
                                         (np_triu (fst (method_matrix (Ns S))) 1)))
    \<and> np_dot_mv Di (replicate (nat ((Ns S)\<^sup>2)) 0) = replicate (nat ((Ns S)\<^sup>2)) 0
    \<and> jacobi_matrices linalg_inv (fst (method_matrix (Ns S))) (nat ((Ns S)\<^sup>2))
        = Some (T, np_dot_mv Di (replicate (nat ((Ns S)\<^sup>2)) 0))
    \<and> jacobi_step linalg_inv S =
        Some (jacobi_sweep T (replicate (nat ((Ns S)\<^sup>2)) 0) (concat (sources S)) (concat (potentials S)))
    \<and> (\<forall>k<nat ((Ns S)\<^sup>2). \<forall>j<nat ((Ns S)\<^sup>2).
          T ! k ! j = (if int j \<in> set (neighbour_indices (Ns S) k) then 1 / 4 else 0))
    \<and> (\<forall>x. jacobi_sweep T (replicate (nat ((Ns S)\<^sup>2)) 0) (concat (sources S)) (concat (potentials S)) x
          = mask_assign (concat (sources S)) (concat (potentials S))
              (vec_add (np_dot_mv T x) (replicate (nat ((Ns S)\<^sup>2)) 0)))
    \<and> (\<forall>x. \<forall>k<nat ((Ns S)\<^sup>2). \<not> concat (sources S) ! k \<longrightarrow>
          jacobi_sweep T (replicate (nat ((Ns S)\<^sup>2)) 0) (concat (sources S)) (concat (potentials S)) x ! k
          = (\<Sum>j\<leftarrow>[0..<length x]. T ! k ! j * x ! j) + replicate (nat ((Ns S)\<^sup>2)) 0 ! k)"
proof -
  define m where "m = nat (Ns S)"
  have n: "Ns S = int m" and m: "0 < m" using assms(1) by (simp_all add: m_def)
  let ?A = "fst (method_matrix (int m))"
  let ?N = "m * m"
  define T where "T = mat_neg (np_dot_mm Di (mat_add (np_tril ?A (- 1)) (np_triu ?A 1)))"
  have inv: "is_inverse (np_diag_diag ?A) Di" using assms(3) unfolding n .
  have lA: "length ?A = ?N" using method_matrix_dims(1)[OF m] .
  have lDi: "length Di = ?N" using inv by (simp add: is_inverse_def square_def np_diag_diag_def lA)
  have lT: "length T = ?N" by (simp add: T_def mat_neg_def np_dot_mm_def lDi)
  have c: "np_dot_mv Di (replicate ?N 0) = replicate ?N 0"
    by (simp add: np_dot_mv_zero lDi)
  have jm: "jacobi_matrices linalg_inv ?A ?N = Some (T, np_dot_mv Di (replicate ?N 0))"
    using assms(2) unfolding n by (simp add: jacobi_matrices_def Let_def T_def)
  have js: "jacobi_step linalg_inv S =
        Some (jacobi_sweep T (replicate ?N 0) (concat (sources S)) (concat (potentials S)))"
    unfolding jacobi_step_def n nat_sq jm c by simp
  have Tn: "\<forall>k<?N. \<forall>j<?N. T ! k ! j = (if int j \<in> set (neighbour_indices (int m) k) then 1 / 4 else 0)"
    unfolding T_def using jacobi_T_nth[OF m inv] by blast
  have sw: "\<forall>x. jacobi_sweep T (replicate ?N 0) (concat (sources S)) (concat (potentials S)) x
          = mask_assign (concat (sources S)) (concat (potentials S))
              (vec_add (np_dot_mv T x) (replicate ?N 0))"
    by (simp add: jacobi_sweep_def)
  have cell: "\<forall>x. \<forall>k<?N. \<not> concat (sources S) ! k \<longrightarrow>
          jacobi_sweep T (replicate ?N 0) (concat (sources S)) (concat (potentials S)) x ! k
          = (\<Sum>j\<leftarrow>[0..<length x]. T ! k ! j * x ! j) + replicate ?N 0 ! k"
    using lT by (simp add: jacobi_sweep_nth np_dot_mv_nth)
  show ?thesis unfolding n nat_sq
    using c jm js Tn sw cell unfolding T_def by (intro exI conjI) (rule refl | assumption)+
qed

lemma method_matrix_two:
  "fst (method_matrix 2) = [[- 4, 1, 1, 0], [1, - 4, 0, 1], [1, 0, - 4, 1], [0, 1, 1, - 4]]"
  by code_simp

lemma two_by_two_inverse:
  "is_inverse (np_diag_diag [[- 4, 1, 1, 0], [1, - 4, 0, 1], [1, 0, - 4, 1], [0, 1, 1, - 4]])
     (map (map inverse) (np_diag_diag [[- 4, 1, 1, 0], [1, - 4, 0, 1], [1, 0, - 4, 1], [0, 1, 1, - 4]]))"
  by code_simp

lemma two_by_two_neighbours: "neighbour_indices 2 0 = [1, 2]"
  by code_simp


text \<open>The 2 by 2 grid with the entrywise reciprocal as the inverse of the diagonal matrix:
  cell 0 becomes a quarter of the sum of cells 1 and 2.\<close>

theorem jacobi_sweep_matrix_form_witness:
  "\<exists>T. jacobi_step (\<lambda>M. Some (map (map inverse) M))
          \<lparr>Ns = 2, h = 1 / 2, potentials = [[0, 0], [0, 0]],
           sources = [[False, False], [False, True]],
           source_potentials = [[0, 0], [0, 0]], A = None, boundary_conditions = None\<rparr>
        = Some (jacobi_sweep T (replicate 4 0) [False, False, False, True] [0, 0, 0, 0])
     \<and> T ! 0 ! 1 = 1 / 4 \<and> T ! 0 ! 2 = 1 / 4 \<and> T ! 0 ! 0 = 0 \<and> T ! 0 ! 3 = 0
     \<and> jacobi_sweep T (replicate 4 0) [False, False, False, True] [0, 0, 0, 0] [4, 8, 12, 16] ! 0 = 5"
proof -
  let ?S = "\<lparr>Ns = 2, h = 1 / 2, potentials = [[0, 0], [0, 0]],
           sources = [[False, False], [False, True]],
           source_potentials = [[0, 0], [0, 0]], A = None, boundary_conditions = None\<rparr> :: System"
  let ?inv = "\<lambda>M :: mat. Some (map (map inverse) M)"
  let ?Di = "map (map inverse) (np_diag_diag (fst (method_matrix (Ns ?S))))"
  have a: "0 < Ns ?S" by simp
  have b: "?inv (np_diag_diag (fst (method_matrix (Ns ?S)))) = Some ?Di" by simp
  have c: "is_inverse (np_diag_diag (fst (method_matrix (Ns ?S)))) ?Di"
    using two_by_two_inverse by (simp add: method_matrix_two)
  have N: "nat ((Ns ?S)\<^sup>2) = 4" by simp
  from jacobi_sweep_matrix_form[where S = ?S and linalg_inv = ?inv and Di = ?Di, OF a b c] obtain T where
    js: "jacobi_step ?inv ?S =
        Some (jacobi_sweep T (replicate (nat ((Ns ?S)\<^sup>2)) 0) (concat (sources ?S)) (concat (potentials ?S)))"
    and Tn: "\<forall>k<nat ((Ns ?S)\<^sup>2). \<forall>j<nat ((Ns ?S)\<^sup>2).
          T ! k ! j = (if int j \<in> set (neighbour_indices (Ns ?S) k) then 1 / 4 else 0)"
    and cell: "\<forall>x. \<forall>k<nat ((Ns ?S)\<^sup>2). \<not> concat (sources ?S) ! k \<longrightarrow>
          jacobi_sweep T (replicate (nat ((Ns ?S)\<^sup>2)) 0) (concat (sources ?S)) (concat (potentials ?S)) x ! k
          = (\<Sum>j\<leftarrow>[0..<length x]. T ! k ! j * x ! j) + replicate (nat ((Ns ?S)\<^sup>2)) 0 ! k"
    by blast
  have t: "T ! 0 ! 0 = 0" "T ! 0 ! 1 = 1 / 4" "T ! 0 ! 2 = 1 / 4" "T ! 0 ! 3 = 0"
    using Tn[unfolded N, rule_format, of 0 0] Tn[unfolded N, rule_format, of 0 1]
      Tn[unfolded N, rule_format, of 0 2] Tn[unfolded N, rule_format, of 0 3]
    by (simp_all add: two_by_two_neighbours)
  have s: "concat (sources ?S) = [False, False, False, True]" "concat (potentials ?S) = [0, 0, 0, 0]"
    by simp_all
  have t': "T ! 0 ! Suc 0 = 1 / 4" "T ! 0 ! Suc (Suc 0) = 1 / 4" "T ! 0 ! Suc (Suc (Suc 0)) = 0"
    using t by (simp_all add: numeral_2_eq_2 numeral_3_eq_3)
  have v: "jacobi_sweep T (replicate 4 0) [False, False, False, True] [0, 0, 0, 0] [4, 8, 12, 16] ! 0 = 5"
    using cell[unfolded N s, rule_format, of 0 "[4, 8, 12, 16]"] by (simp add: t t')
  show ?thesis using js[unfolded N s] t v by blast
qed

subsection \<open>C7: constructing a System\<close>

text \<open>
  Claim C7, as amended. Constructing a System fails for every value of \<open>Ns\<close> that is not
  an integer (the assertion) and for \<open>Ns = 0\<close> (the division \<open>1./Ns\<close>); for every positive
  integer \<open>Ns\<close> it succeeds with a potential field, a source mask and source potentials
  of \<open>Ns\<close> rows of \<open>Ns\<close> entries, all zero (all false for the mask).
\<close>

theorem System_init_dimension:
  "((\<forall>n. v \<noteq> PyInt n) \<longrightarrow> System_init v = Inl AssertionError)
   \<and> System_init (PyInt 0) = Inl ZeroDivisionError
   \<and> (0 < n \<longrightarrow>
        System_init (PyInt n) =
          Inr \<lparr>Ns = n, h = 1 / real_of_int n,
               potentials = replicate (nat n) (replicate (nat n) 0),
               sources = replicate (nat n) (replicate (nat n) False),
               source_potentials = replicate (nat n) (replicate (nat n) 0),
               A = None, boundary_conditions = None\<rparr>)"
proof (intro conjI impI)
  assume "\<forall>n. v \<noteq> PyInt n"
  then show "System_init v = Inl AssertionError"
    by (cases v) (simp_all add: System_init_def)
next
  show "System_init (PyInt 0) = Inl ZeroDivisionError" by (simp add: System_init_def)
next
  assume "0 < n"
  then show "System_init (PyInt n) =
          Inr \<lparr>Ns = n, h = 1 / real_of_int n,
               potentials = replicate (nat n) (replicate (nat n) 0),
               sources = replicate (nat n) (replicate (nat n) False),
               source_potentials = replicate (nat n) (replicate (nat n) 0),
               A = None, boundary_conditions = None\<rparr>"
    by (simp add: System_init_def Let_def np_zeros2_def)
qed

text \<open>The theorem at the float 2.5, at 0 and at 2.\<close>

theorem System_init_dimension_witness:
  "System_init (PyFloat (5 / 2)) = Inl AssertionError
   \<and> System_init (PyInt 0) = Inl ZeroDivisionError
   \<and> System_init (PyInt 2) =
          Inr \<lparr>Ns = 2, h = 1 / 2,
               potentials = [[0, 0], [0, 0]],
               sources = [[False, False], [False, False]],
               source_potentials = [[0, 0], [0, 0]],
               A = None, boundary_conditions = None\<rparr>"
proof -
  have a: "\<forall>n. PyFloat (5 / 2) \<noteq> PyInt n" by simp
  have b: "(0::int) < 2" by simp
  have r: "replicate (nat 2) (replicate (nat 2) (0::real)) = [[0, 0], [0, 0]]"
    "replicate (nat 2) (replicate (nat 2) False) = [[False, False], [False, False]]"
    by (simp_all add: numeral_2_eq_2)
  from System_init_dimension[of "PyFloat (5 / 2)" 2] a b show ?thesis
    unfolding r by simp
qed

text \<open>
  Claim C7 as stated fails for a negative integer: nothing checks the sign, and
  \<open>System(-2)\<close> is constructed with arrays of 2 by 2 zeros.
\<close>

theorem negative_Ns_counterexample:
  "System_init (PyInt (- 2)) =
     Inr \<lparr>Ns = - 2, h = - (1 / 2),
          potentials = [[0, 0], [0, 0]],
          sources = [[False, False], [False, False]],
          source_potentials = [[0, 0], [0, 0]],
          A = None, boundary_conditions = None\<rparr>"
  by (simp add: System_init_def Let_def np_zeros2_def numeral_2_eq_2)

subsection \<open>C5: adding Shapes\<close>

lemma point_shape:
  "Shape_init (PyInt 1) p (0, 0) [] \<lparr>kw_shape = None, kw_filled = None\<rparr> =
     Inr (\<lparr>Ns = 1, h = 1, potentials = [[p]], sources = [[True]], source_potentials = [[p]],
           potential = p\<rparr>, [])"
  by (simp add: Shape_init_def add_source_def add_point_def one_point_closest in_array_def
      np_zeros2_def mark_def set2_def)

lemma add_cells:
  assumes "wf_grid S" "shape_of (Ns S) p r"
  shows "\<exists>S'. add S r = Inr S' \<and> wf_grid S' \<and> Ns S' = Ns S
     \<and> (\<forall>i<nat \<bar>Ns S\<bar>. \<forall>j<nat \<bar>Ns S\<bar>.
           sources S' ! i ! j = (sources S ! i ! j \<or> sources r ! i ! j)
         \<and> potentials S' ! i ! j = potentials S ! i ! j + (if sources r ! i ! j then p else 0)
         \<and> source_potentials S' ! i ! j =
             source_potentials S ! i ! j + (if sources r ! i ! j then p else 0))"
proof -
  let ?k = "nat \<bar>Ns S\<bar>"
  define S' where "S' = S\<lparr>potentials := map2 (map2 (+)) (potentials S) (potentials r),
                  sources := map2 (map2 (\<or>)) (sources S) (sources r),
                  source_potentials :=
                    map2 (map2 (+)) (source_potentials S) (source_potentials r)\<rparr>"
  from assms(2) have n: "Ns r = Ns S" and p: "potential r = p" and wr: "wf_grid r"
    and cells: "\<forall>i<?k. \<forall>j<?k.
            potentials r ! i ! j = (if sources r ! i ! j then p else 0)
          \<and> source_potentials r ! i ! j = (if sources r ! i ! j then p else 0)"
    by (auto simp: shape_of_def shape_inv_def)
  from assms(1) have sS: "square ?k (potentials S)" "square ?k (sources S)"
      "square ?k (source_potentials S)" and nz: "Ns S \<noteq> 0"
    by (simp_all add: wf_grid_def)
  from wr n have sr: "square ?k (potentials r)" "square ?k (sources r)"
      "square ?k (source_potentials r)"
    by (simp_all add: wf_grid_def)
  have a: "add S r = Inr S'" using n by (simp add: add_def S'_def)
  have w: "wf_grid S'" using nz sS sr by (simp add: wf_grid_def S'_def map2_square)
  have c: "\<forall>i<?k. \<forall>j<?k.
           sources S' ! i ! j = (sources S ! i ! j \<or> sources r ! i ! j)
         \<and> potentials S' ! i ! j = potentials S ! i ! j + (if sources r ! i ! j then p else 0)
         \<and> source_potentials S' ! i ! j =
             source_potentials S ! i ! j + (if sources r ! i ! j then p else 0)"
    using cells
    by (simp add: S'_def map2_nth2[OF sS(1) sr(1)] map2_nth2[OF sS(2) sr(2)]
        map2_nth2[OF sS(3) sr(3)])
  have "Ns S' = Ns S" by (simp add: S'_def)
  then show ?thesis using a w c by blast
qed

lemma System_init_zero:
  assumes "System_init v = Inr S" "i < nat \<bar>Ns S\<bar>" "j < nat \<bar>Ns S\<bar>"
  shows "potentials S ! i ! j = 0 \<and> source_potentials S ! i ! j = 0"
proof -
  from assms(1) obtain n where v: "v = PyInt n" and n: "n \<noteq> 0"
    by (cases v) (auto simp: System_init_def split: if_splits)
  from assms(1) v n have S: "S = \<lparr>Ns = n, h = 1 / real_of_int n,
                 potentials = np_zeros2 (nat \<bar>n\<bar>) (nat \<bar>n\<bar>),
                 sources = replicate (nat \<bar>n\<bar>) (replicate (nat \<bar>n\<bar>) False),
                 source_potentials = np_zeros2 (nat \<bar>n\<bar>) (nat \<bar>n\<bar>),
                 A = None, boundary_conditions = None\<rparr>"
    by (simp add: System_init_def Let_def)
  show ?thesis using assms(2,3) unfolding S by (simp add: np_zeros2_def)
qed

text \<open>
  Claim C5, as amended. Let \<open>S\<close> be a well-formed System and \<open>r1\<close>, \<open>r2\<close> two Shapes built
  by the Shape constructor with potentials \<open>p1\<close> and \<open>p2\<close> and with the \<open>Ns\<close> of \<open>S\<close>. Then
  \<open>S.add(r1)\<close> and \<open>S.add(r2)\<close> both succeed; after each add the source mask is, at every
  cell, the logical or of the mask before and the mask of the Shape; and every cell marked
  by both Shapes holds what \<open>S\<close> held there before plus \<open>p1 + p2\<close>, in the potential field
  and in the source potentials: exactly \<open>p1 + p2\<close> when \<open>S\<close> is a new System.
\<close>

theorem additive_overlap:
  assumes "wf_grid S"
    and "Shape_init v1 p1 origin1 args1 kw1 = Inr (r1, out1)"
    and "Shape_init v2 p2 origin2 args2 kw2 = Inr (r2, out2)"
    and "Ns r1 = Ns S" and "Ns r2 = Ns S"
  shows "\<exists>S1 S2. add S r1 = Inr S1 \<and> add S1 r2 = Inr S2
     \<and> (\<forall>i<nat \<bar>Ns S\<bar>. \<forall>j<nat \<bar>Ns S\<bar>.
           sources S1 ! i ! j = (sources S ! i ! j \<or> sources r1 ! i ! j)
         \<and> sources S2 ! i ! j = (sources S1 ! i ! j \<or> sources r2 ! i ! j)
         \<and> (sources r1 ! i ! j \<and> sources r2 ! i ! j \<longrightarrow>
               potentials S2 ! i ! j = potentials S ! i ! j + p1 + p2
             \<and> source_potentials S2 ! i ! j = source_potentials S ! i ! j + p1 + p2)
         \<and> (sources r1 ! i ! j \<and> sources r2 ! i ! j \<and> (\<exists>v. System_init v = Inr S) \<longrightarrow>
               potentials S2 ! i ! j = p1 + p2 \<and> source_potentials S2 ! i ! j = p1 + p2))"
proof -
  let ?k = "nat \<bar>Ns S\<bar>"
  from Shape_init_shape_of[OF assms(2)] assms(4) have s1: "shape_of (Ns S) p1 r1"
    by (auto simp: shape_of_def)
  from Shape_init_shape_of[OF assms(3)] assms(5) have s2: "shape_of (Ns S) p2 r2"
    by (auto simp: shape_of_def)
  from add_cells[OF assms(1) s1] obtain S1 where a1: "add S r1 = Inr S1" and w1: "wf_grid S1"
    and n1: "Ns S1 = Ns S"
    and c1: "\<forall>i<?k. \<forall>j<?k.
           sources S1 ! i ! j = (sources S ! i ! j \<or> sources r1 ! i ! j)
         \<and> potentials S1 ! i ! j = potentials S ! i ! j + (if sources r1 ! i ! j then p1 else 0)
         \<and> source_potentials S1 ! i ! j =
             source_potentials S ! i ! j + (if sources r1 ! i ! j then p1 else 0)"
    by blast
  from s2 n1 have s2': "shape_of (Ns S1) p2 r2" by simp
  from add_cells[OF w1 s2'] obtain S2 where a2: "add S1 r2 = Inr S2"
    and c2: "\<forall>i<?k. \<forall>j<?k.
           sources S2 ! i ! j = (sources S1 ! i ! j \<or> sources r2 ! i ! j)
         \<and> potentials S2 ! i ! j = potentials S1 ! i ! j + (if sources r2 ! i ! j then p2 else 0)
         \<and> source_potentials S2 ! i ! j =
             source_potentials S1 ! i ! j + (if sources r2 ! i ! j then p2 else 0)"
    unfolding n1 by blast
  have z: "\<forall>i<?k. \<forall>j<?k. (\<exists>v. System_init v = Inr S) \<longrightarrow>
      potentials S ! i ! j = 0 \<and> source_potentials S ! i ! j = 0"
    using System_init_zero by blast
  have "\<forall>i<?k. \<forall>j<?k.
           sources S1 ! i ! j = (sources S ! i ! j \<or> sources r1 ! i ! j)
         \<and> sources S2 ! i ! j = (sources S1 ! i ! j \<or> sources r2 ! i ! j)
         \<and> (sources r1 ! i ! j \<and> sources r2 ! i ! j \<longrightarrow>
               potentials S2 ! i ! j = potentials S ! i ! j + p1 + p2
             \<and> source_potentials S2 ! i ! j = source_potentials S ! i ! j + p1 + p2)
         \<and> (sources r1 ! i ! j \<and> sources r2 ! i ! j \<and> (\<exists>v. System_init v = Inr S) \<longrightarrow>
               potentials S2 ! i ! j = p1 + p2 \<and> source_potentials S2 ! i ! j = p1 + p2)"
  proof (intro allI impI)
    fix i j assume i: "i < ?k" and j: "j < ?k"
    note C1 = c1[rule_format, OF i j] and C2 = c2[rule_format, OF i j] and Z = z[rule_format, OF i j]
    show "sources S1 ! i ! j = (sources S ! i ! j \<or> sources r1 ! i ! j)
         \<and> sources S2 ! i ! j = (sources S1 ! i ! j \<or> sources r2 ! i ! j)
         \<and> (sources r1 ! i ! j \<and> sources r2 ! i ! j \<longrightarrow>
               potentials S2 ! i ! j = potentials S ! i ! j + p1 + p2
             \<and> source_potentials S2 ! i ! j = source_potentials S ! i ! j + p1 + p2)
         \<and> (sources r1 ! i ! j \<and> sources r2 ! i ! j \<and> (\<exists>v. System_init v = Inr S) \<longrightarrow>
               potentials S2 ! i ! j = p1 + p2 \<and> source_potentials S2 ! i ! j = p1 + p2)"
      using C1 C2 Z by auto
  qed
  then show ?thesis using a1 a2 by blast
qed

text \<open>Two point sources of potentials 1 and 2 added to the new System of one cell.\<close>

theorem additive_overlap_witness:
  "\<exists>S1 S2.
      add \<lparr>Ns = 1, h = 1, potentials = [[0]], sources = [[False]], source_potentials = [[0]],
            A = None, boundary_conditions = None\<rparr>
          \<lparr>Ns = 1, h = 1, potentials = [[1]], sources = [[True]], source_potentials = [[1]],
            potential = 1\<rparr> = Inr S1
    \<and> add S1 \<lparr>Ns = 1, h = 1, potentials = [[2]], sources = [[True]], source_potentials = [[2]],
            potential = 2\<rparr> = Inr S2
    \<and> sources S1 ! 0 ! 0 \<and> sources S2 ! 0 ! 0
    \<and> potentials S2 ! 0 ! 0 = 3 \<and> source_potentials S2 ! 0 ! 0 = 3"
proof -
  let ?S = "\<lparr>Ns = 1, h = 1, potentials = [[0]], sources = [[False]], source_potentials = [[0]],
            A = None, boundary_conditions = None\<rparr> :: System"
  let ?r1 = "\<lparr>Ns = 1, h = 1, potentials = [[1]], sources = [[True]], source_potentials = [[1]],
            potential = 1\<rparr> :: Shape"
  let ?r2 = "\<lparr>Ns = 1, h = 1, potentials = [[2]], sources = [[True]], source_potentials = [[2]],
            potential = 2\<rparr> :: Shape"
  have w: "wf_grid ?S" by (simp add: wf_grid_def square_def)
  have n: "Ns ?r1 = Ns ?S" "Ns ?r2 = Ns ?S" by simp_all
  have f: "\<exists>v. System_init v = Inr ?S" using one_cell_system by blast
  from additive_overlap[OF w point_shape[of 1] point_shape[of 2] n]
  obtain S1 S2 where a: "add ?S ?r1 = Inr S1" "add S1 ?r2 = Inr S2"
    and c: "\<forall>i<nat \<bar>Ns ?S\<bar>. \<forall>j<nat \<bar>Ns ?S\<bar>.
           sources S1 ! i ! j = (sources ?S ! i ! j \<or> sources ?r1 ! i ! j)
         \<and> sources S2 ! i ! j = (sources S1 ! i ! j \<or> sources ?r2 ! i ! j)
         \<and> (sources ?r1 ! i ! j \<and> sources ?r2 ! i ! j \<longrightarrow>
               potentials S2 ! i ! j = potentials ?S ! i ! j + 1 + 2
             \<and> source_potentials S2 ! i ! j = source_potentials ?S ! i ! j + 1 + 2)
         \<and> (sources ?r1 ! i ! j \<and> sources ?r2 ! i ! j \<and> (\<exists>v. System_init v = Inr ?S) \<longrightarrow>
               potentials S2 ! i ! j = 1 + 2 \<and> source_potentials S2 ! i ! j = 1 + 2)"
    by blast
  have "sources S1 ! 0 ! 0 \<and> sources S2 ! 0 ! 0
    \<and> potentials S2 ! 0 ! 0 = 3 \<and> source_potentials S2 ! 0 ! 0 = 3"
    using c[rule_format, of 0 0] f by simp
  then show ?thesis using a by blast
qed

text \<open>
  Claim C5 as stated fails for a System that already holds a source at the cell: on the
  System of one cell with a source of potential 7, adding Shapes of potentials 1 and 2
  leaves 10 at the cell, not 1 + 2.
\<close>

theorem overlap_on_source_counterexample:
  "populated \<lparr>Ns = 1, h = 1, potentials = [[7]], sources = [[True]], source_potentials = [[7]],
          A = None, boundary_conditions = None\<rparr>
   \<and> Shape_init (PyInt 1) 1 (0, 0) [] \<lparr>kw_shape = None, kw_filled = None\<rparr> =
       Inr (\<lparr>Ns = 1, h = 1, potentials = [[1]], sources = [[True]], source_potentials = [[1]],
             potential = 1\<rparr>, [])
   \<and> Shape_init (PyInt 1) 2 (0, 0) [] \<lparr>kw_shape = None, kw_filled = None\<rparr> =
       Inr (\<lparr>Ns = 1, h = 1, potentials = [[2]], sources = [[True]], source_potentials = [[2]],
             potential = 2\<rparr>, [])
   \<and> add \<lparr>Ns = 1, h = 1, potentials = [[7]], sources = [[True]], source_potentials = [[7]],
          A = None, boundary_conditions = None\<rparr>
        \<lparr>Ns = 1, h = 1, potentials = [[1]], sources = [[True]], source_potentials = [[1]],
             potential = 1\<rparr> =
       Inr \<lparr>Ns = 1, h = 1, potentials = [[8]], sources = [[True]], source_potentials = [[8]],
          A = None, boundary_conditions = None\<rparr>
   \<and> add \<lparr>Ns = 1, h = 1, potentials = [[8]], sources = [[True]], source_potentials = [[8]],
          A = None, boundary_conditions = None\<rparr>
        \<lparr>Ns = 1, h = 1, potentials = [[2]], sources = [[True]], source_potentials = [[2]],
             potential = 2\<rparr> =
       Inr \<lparr>Ns = 1, h = 1, potentials = [[10]], sources = [[True]], source_potentials = [[10]],
          A = None, boundary_conditions = None\<rparr>
   \<and> [[10 :: real]] ! 0 ! 0 \<noteq> 1 + 2"
  using one_source_populated point_shape[of 1] point_shape[of 2]
  by (simp add: add_def)

subsection \<open>C9: the row-wise fill\<close>

lemma sorted_hd_Min:
  fixes xs :: "nat list"
  assumes "sorted xs" "xs \<noteq> []"
  shows "hd xs = Min (set xs)"
proof (cases xs)
  case Nil
  then show ?thesis using assms by simp
next
  case (Cons x ys)
  then have "\<forall>y\<in>set xs. x \<le> y" using assms(1) by auto
  then have "Min (set xs) = x" using Cons by (intro Min_eqI) auto
  then show ?thesis using Cons by simp
qed

lemma sorted_last_Max:
  fixes xs :: "nat list"
  assumes "sorted xs" "xs \<noteq> []"
  shows "last xs = Max (set xs)"
proof -
  from assms(2) obtain ys x where xs: "xs = ys @ [x]" by (metis rev_exhaust)
  then have "\<forall>y\<in>set xs. y \<le> x" using assms(1) by (auto simp: sorted_append)
  then have "Max (set xs) = x" using xs by (intro Max_eqI) auto
  then show ?thesis using xs by simp
qed

lemma between_indices:
  "(let indices = filter (\<lambda>j. row ! j) [0..<length row]
    in 1 < length indices \<and> j \<in> set [hd indices + 1..<last indices]) = strictly_between row j"
proof -
  define idx where "idx = filter (\<lambda>j. row ! j) [0..<length row]"
  have s: "sorted idx" "distinct idx" by (simp_all add: idx_def sorted_filter[where f = "\<lambda>x. x", simplified])
  have mk: "marked row = set idx" unfolding marked_def idx_def ..
  have c: "card (marked row) = length idx" unfolding mk using s(2) by (rule distinct_card)
  show ?thesis
  proof (cases "1 < length idx")
    case True
    then have ne: "idx \<noteq> []" by auto
    show ?thesis
      using True c sorted_hd_Min[OF s(1) ne] sorted_last_Max[OF s(1) ne]
      unfolding strictly_between_def Let_def idx_def[symmetric] mk by auto
  next
    case False
    then show ?thesis using c unfolding strictly_between_def Let_def idx_def[symmetric] by auto
  qed
qed


lemma mark_marked_from:
  assumes "wf_grid s"
  shows "marked_from s (\<lambda>i' j'. i' = i \<and> j' = j) (mark s i j)"
proof -
  let ?k = "nat \<bar>Ns s\<bar>"
  from assms have sq: "square ?k (potentials s)" "square ?k (sources s)" "square ?k (source_potentials s)"
    and nz: "Ns s \<noteq> 0" by (simp_all add: wf_grid_def)
  have wf': "wf_grid (mark s i j)"
    using nz sq by (simp add: wf_grid_def mark_def set2_square)
  have "sources (mark s i j) ! i' ! j' = (sources s ! i' ! j' \<or> (i' = i \<and> j' = j))
          \<and> potentials (mark s i j) ! i' ! j' =
              (if i' = i \<and> j' = j then potential s else potentials s ! i' ! j')
          \<and> source_potentials (mark s i j) ! i' ! j' =
              (if i' = i \<and> j' = j then potential s else source_potentials s ! i' ! j')"
    if "i' < ?k" "j' < ?k" for i' j'
    using that by (auto simp: mark_def set2_nth[OF sq(1)] set2_nth[OF sq(2)] set2_nth[OF sq(3)])
  then show ?thesis unfolding marked_from_def
    using wf' by (simp add: mark_def)
qed

lemma marked_from_trans:
  assumes "marked_from s F s1" "marked_from s1 G s2"
  shows "marked_from s (\<lambda>i j. F i j \<or> G i j) s2"
  using assms unfolding marked_from_def by auto

lemma marked_from_refl: "wf_grid s \<Longrightarrow> marked_from s (\<lambda>i j. False) s"
  by (simp add: marked_from_def)

lemma marked_from_cong:
  assumes "marked_from s F s'" "\<And>i j. i < nat \<bar>Ns s\<bar> \<Longrightarrow> j < nat \<bar>Ns s\<bar> \<Longrightarrow> F i j = G i j"
  shows "marked_from s G s'"
  using assms unfolding marked_from_def by auto

lemma foldl_mark_marked_from:
  assumes "wf_grid s"
  shows "marked_from s (\<lambda>i' j'. i' = i \<and> j' \<in> set js) (foldl (\<lambda>s' index. mark s' i index) s js)"
  using assms
proof (induction js arbitrary: s rule: rev_induct)
  case Nil
  then show ?case by (simp add: marked_from_refl)
next
  case (snoc j js)
  let ?s1 = "foldl (\<lambda>s' index. mark s' i index) s js"
  have 1: "marked_from s (\<lambda>i' j'. i' = i \<and> j' \<in> set js) ?s1" by (rule snoc.IH[OF snoc.prems])
  then have w1: "wf_grid ?s1" by (simp add: marked_from_def)
  have 2: "marked_from ?s1 (\<lambda>i' j'. i' = i \<and> j' = j) (mark ?s1 i j)" by (rule mark_marked_from[OF w1])
  have "marked_from s (\<lambda>i' j'. (i' = i \<and> j' \<in> set js) \<or> (i' = i \<and> j' = j)) (mark ?s1 i j)"
    by (rule marked_from_trans[OF 1 2])
  then have "marked_from s (\<lambda>i' j'. i' = i \<and> j' \<in> set (js @ [j])) (mark ?s1 i j)"
    by (rule marked_from_cong) auto
  then show ?case by simp
qed

lemma fill_row_marked_from:
  assumes "wf_grid s"
  shows "marked_from s (\<lambda>i' j'. i' = i \<and> strictly_between (sources s ! i) j') (fill_row s i)"
proof -
  define idx where "idx = filter (\<lambda>j. sources s ! i ! j) [0..<length (sources s ! i)]"
  have b: "\<And>j. (1 < length idx \<and> j \<in> set [hd idx + 1..<last idx]) = strictly_between (sources s ! i) j"
    using between_indices[of "sources s ! i"] unfolding Let_def idx_def .
  show ?thesis
  proof (cases "1 < length idx")
    case True
    then have e: "fill_row s i = foldl (\<lambda>s' index. mark s' i index) s [hd idx + 1..<last idx]"
      by (simp add: fill_row_def Let_def idx_def)
    show ?thesis unfolding e
      by (rule marked_from_cong[OF foldl_mark_marked_from[OF assms]]) (use b True in auto)
  next
    case False
    then have e: "fill_row s i = s" by (simp add: fill_row_def Let_def idx_def)
    show ?thesis unfolding e
      by (rule marked_from_cong[OF marked_from_refl[OF assms]]) (use b False in auto)
  qed
qed

lemma marked_from_row:
  assumes "wf_grid s" "marked_from s F s'" "i < nat \<bar>Ns s\<bar>"
    "\<And>j. j < nat \<bar>Ns s\<bar> \<Longrightarrow> \<not> F i j"
  shows "sources s' ! i = sources s ! i"
proof (rule nth_equalityI)
  let ?k = "nat \<bar>Ns s\<bar>"
  from assms(2) have w': "wf_grid s'" and n: "Ns s' = Ns s" by (simp_all add: marked_from_def)
  have l: "length (sources s ! i) = ?k" using wf_grid_rows(1,2)[OF assms(1)] assms(3) by simp
  have l': "length (sources s' ! i) = ?k" using wf_grid_rows(1,2)[OF w'] assms(3) n by simp
  show "length (sources s' ! i) = length (sources s ! i)" using l l' by simp
  fix j assume "j < length (sources s' ! i)"
  then have j: "j < ?k" using l' by simp
  show "sources s' ! i ! j = sources s ! i ! j"
    using assms(2,3,4) j by (simp add: marked_from_def)
qed

lemma fill_prefix:
  assumes "wf_grid s" "n \<le> nat \<bar>Ns s\<bar>"
  shows "marked_from s (\<lambda>i j. i < n \<and> strictly_between (sources s ! i) j)
           (foldl fill_row s [0..<n])"
  using assms(2)
proof (induction n)
  case 0
  then show ?case using marked_from_refl[OF assms(1)] by simp
next
  case (Suc n)
  define sn where "sn = foldl fill_row s [0..<n]"
  from Suc have n: "n < nat \<bar>Ns s\<bar>"
    and 1: "marked_from s (\<lambda>i j. i < n \<and> strictly_between (sources s ! i) j) sn"
    by (simp_all add: sn_def)
  from 1 have wn: "wf_grid sn" and nn: "Ns sn = Ns s" by (simp_all add: marked_from_def)
  have row: "sources sn ! n = sources s ! n"
    by (rule marked_from_row[OF assms(1) 1 n]) simp
  have 2: "marked_from sn (\<lambda>i' j'. i' = n \<and> strictly_between (sources s ! n) j') (fill_row sn n)"
    using fill_row_marked_from[OF wn, of n] unfolding row .
  have "marked_from s (\<lambda>i j. (i < n \<and> strictly_between (sources s ! i) j)
            \<or> (i = n \<and> strictly_between (sources s ! n) j)) (fill_row sn n)"
    by (rule marked_from_trans[OF 1 2])
  then have "marked_from s (\<lambda>i j. i < Suc n \<and> strictly_between (sources s ! i) j) (fill_row sn n)"
    by (rule marked_from_cong) (auto simp: less_Suc_eq)
  then show ?case by (simp add: sn_def)
qed

lemma fill_marked_from:
  assumes "wf_grid s"
  shows "marked_from s (\<lambda>i j. strictly_between (sources s ! i) j) (fill s)"
proof -
  have l: "length (sources s) = nat \<bar>Ns s\<bar>" using wf_grid_rows(1)[OF assms] .
  have "marked_from s (\<lambda>i j. i < nat \<bar>Ns s\<bar> \<and> strictly_between (sources s ! i) j) (fill s)"
    unfolding fill_def l by (rule fill_prefix[OF assms order_refl])
  then show ?thesis by (rule marked_from_cong) simp
qed

text \<open>
  Claim C9. On a well-formed Shape, \<open>fill\<close> marks exactly the cells that lie strictly
  between the first and the last marked cell of a row with at least two marked cells: such
  a cell becomes a source at the potential of the Shape in all three arrays, and every other
  cell keeps its mask and its values; a row with fewer than two marked cells is unchanged.
  \<open>add_source\<close> runs \<open>fill\<close> on the rasterized outline of a rectangle or a circle when
  \<open>filled\<close> is true, which it is by default, and not when it is false.
\<close>

theorem fill_is_row_scanline:
  assumes "wf_grid s"
  shows "wf_grid (fill s)
    \<and> (\<forall>i<nat \<bar>Ns s\<bar>. \<forall>j<nat \<bar>Ns s\<bar>.
          sources (fill s) ! i ! j = (sources s ! i ! j \<or> strictly_between (sources s ! i) j)
        \<and> potentials (fill s) ! i ! j =
            (if strictly_between (sources s ! i) j then potential s else potentials s ! i ! j)
        \<and> source_potentials (fill s) ! i ! j =
            (if strictly_between (sources s ! i) j then potential s else source_potentials s ! i ! j))
    \<and> (\<forall>i<nat \<bar>Ns s\<bar>. card (marked (sources s ! i)) < 2 \<longrightarrow>
          sources (fill s) ! i = sources s ! i)
    \<and> (\<forall>origin width height s1 out.
          rectangle_outline s origin width height = Inr (s1, out) \<longrightarrow>
          add_source s origin [width, height] \<lparr>kw_shape = Some ''rectangle'', kw_filled = Some True\<rparr>
            = Inr (fill s1, out)
        \<and> add_source s origin [width, height] \<lparr>kw_shape = None, kw_filled = None\<rparr>
            = Inr (fill s1, out)
        \<and> add_source s origin [width, height] \<lparr>kw_shape = None, kw_filled = Some False\<rparr>
            = Inr (s1, out))
    \<and> (\<forall>origin r s1 out.
          circle_outline s origin r = Inr (s1, out) \<longrightarrow>
          add_source s origin [r] \<lparr>kw_shape = Some ''circle'', kw_filled = Some True\<rparr>
            = Inr (fill s1, out)
        \<and> add_source s origin [r] \<lparr>kw_shape = Some ''circle'', kw_filled = None\<rparr>
            = Inr (fill s1, out)
        \<and> add_source s origin [r] \<lparr>kw_shape = Some ''circle'', kw_filled = Some False\<rparr>
            = Inr (s1, out))"
proof -
  note F = fill_marked_from[OF assms]
  have 1: "wf_grid (fill s)" using F by (simp add: marked_from_def)
  have 2: "\<forall>i<nat \<bar>Ns s\<bar>. \<forall>j<nat \<bar>Ns s\<bar>.
          sources (fill s) ! i ! j = (sources s ! i ! j \<or> strictly_between (sources s ! i) j)
        \<and> potentials (fill s) ! i ! j =
            (if strictly_between (sources s ! i) j then potential s else potentials s ! i ! j)
        \<and> source_potentials (fill s) ! i ! j =
            (if strictly_between (sources s ! i) j then potential s else source_potentials s ! i ! j)"
    using F unfolding marked_from_def by blast
  have 3: "\<forall>i<nat \<bar>Ns s\<bar>. card (marked (sources s ! i)) < 2 \<longrightarrow>
          sources (fill s) ! i = sources s ! i"
  proof (intro allI impI)
    fix i assume i: "i < nat \<bar>Ns s\<bar>" and c: "card (marked (sources s ! i)) < 2"
    show "sources (fill s) ! i = sources s ! i"
      by (rule marked_from_row[OF assms F i]) (use c in \<open>simp add: strictly_between_def\<close>)
  qed
  have 4: "\<forall>origin width height s1 out.
          rectangle_outline s origin width height = Inr (s1, out) \<longrightarrow>
          add_source s origin [width, height] \<lparr>kw_shape = Some ''rectangle'', kw_filled = Some True\<rparr>
            = Inr (fill s1, out)
        \<and> add_source s origin [width, height] \<lparr>kw_shape = None, kw_filled = None\<rparr>
            = Inr (fill s1, out)
        \<and> add_source s origin [width, height] \<lparr>kw_shape = None, kw_filled = Some False\<rparr>
            = Inr (s1, out)"
    by (simp add: add_source_def fill_if_def)
  have 5: "\<forall>origin r s1 out.
          circle_outline s origin r = Inr (s1, out) \<longrightarrow>
          add_source s origin [r] \<lparr>kw_shape = Some ''circle'', kw_filled = Some True\<rparr>
            = Inr (fill s1, out)
        \<and> add_source s origin [r] \<lparr>kw_shape = Some ''circle'', kw_filled = None\<rparr>
            = Inr (fill s1, out)
        \<and> add_source s origin [r] \<lparr>kw_shape = Some ''circle'', kw_filled = Some False\<rparr>
            = Inr (s1, out)"
    by (simp add: add_source_def fill_if_def)
  show ?thesis using 1 2 3 4 5 by blast
qed

lemma between_example:
  "strictly_between [True, False, True] 1" "\<not> strictly_between [False, False, False] 1"
  "card (marked [False, True, False]) < 2"
  by code_simp+

text \<open>A 3 by 3 Shape: the gap of the first row is filled, the other rows are unchanged.\<close>

theorem fill_is_row_scanline_witness:
  "sources (fill \<lparr>Ns = 3, h = 1 / 3, potentials = [[7, 0, 7], [0, 0, 0], [0, 7, 0]],
        sources = [[True, False, True], [False, False, False], [False, True, False]],
        source_potentials = [[7, 0, 7], [0, 0, 0], [0, 7, 0]], potential = 7\<rparr>) ! 0 ! 1
   \<and> potentials (fill \<lparr>Ns = 3, h = 1 / 3, potentials = [[7, 0, 7], [0, 0, 0], [0, 7, 0]],
        sources = [[True, False, True], [False, False, False], [False, True, False]],
        source_potentials = [[7, 0, 7], [0, 0, 0], [0, 7, 0]], potential = 7\<rparr>) ! 0 ! 1 = 7
   \<and> source_potentials (fill \<lparr>Ns = 3, h = 1 / 3, potentials = [[7, 0, 7], [0, 0, 0], [0, 7, 0]],
        sources = [[True, False, True], [False, False, False], [False, True, False]],
        source_potentials = [[7, 0, 7], [0, 0, 0], [0, 7, 0]], potential = 7\<rparr>) ! 0 ! 1 = 7
   \<and> potentials (fill \<lparr>Ns = 3, h = 1 / 3, potentials = [[7, 0, 7], [0, 0, 0], [0, 7, 0]],
        sources = [[True, False, True], [False, False, False], [False, True, False]],
        source_potentials = [[7, 0, 7], [0, 0, 0], [0, 7, 0]], potential = 7\<rparr>) ! 1 ! 1 = 0
   \<and> sources (fill \<lparr>Ns = 3, h = 1 / 3, potentials = [[7, 0, 7], [0, 0, 0], [0, 7, 0]],
        sources = [[True, False, True], [False, False, False], [False, True, False]],
        source_potentials = [[7, 0, 7], [0, 0, 0], [0, 7, 0]], potential = 7\<rparr>) ! 2
       = [False, True, False]"
proof -
  let ?s = "\<lparr>Ns = 3, h = 1 / 3, potentials = [[7, 0, 7], [0, 0, 0], [0, 7, 0]],
        sources = [[True, False, True], [False, False, False], [False, True, False]],
        source_potentials = [[7, 0, 7], [0, 0, 0], [0, 7, 0]], potential = 7\<rparr> :: Shape"
  have w: "wf_grid ?s" by (simp add: wf_grid_def square_def)
  have k: "nat \<bar>Ns ?s\<bar> = 3" by simp
  from fill_is_row_scanline[OF w] have
    c: "\<forall>i<nat \<bar>Ns ?s\<bar>. \<forall>j<nat \<bar>Ns ?s\<bar>.
          sources (fill ?s) ! i ! j = (sources ?s ! i ! j \<or> strictly_between (sources ?s ! i) j)
        \<and> potentials (fill ?s) ! i ! j =
            (if strictly_between (sources ?s ! i) j then potential ?s else potentials ?s ! i ! j)
        \<and> source_potentials (fill ?s) ! i ! j =
            (if strictly_between (sources ?s ! i) j then potential ?s else source_potentials ?s ! i ! j)"
    and r: "\<forall>i<nat \<bar>Ns ?s\<bar>. card (marked (sources ?s ! i)) < 2 \<longrightarrow>
          sources (fill ?s) ! i = sources ?s ! i"
    by blast+
  have 1: "sources (fill ?s) ! 0 ! 1 \<and> potentials (fill ?s) ! 0 ! 1 = 7
      \<and> source_potentials (fill ?s) ! 0 ! 1 = 7"
    using c[unfolded k, rule_format, of 0 1] between_example(1) by simp
  have 2: "potentials (fill ?s) ! 1 ! 1 = 0"
    using c[unfolded k, rule_format, of 1 1] between_example(2) by simp
  have 3: "sources (fill ?s) ! 2 = [False, True, False]"
    using r[unfolded k, rule_format, of 2] between_example(3) by simp
  show ?thesis using 1 2 3 by blast
qed

subsection \<open>C8: requests without a rasterization\<close>

lemma add_source_not_implemented:
  assumes "args \<noteq> []"
  shows "kw_shape kw = Some ''rectangle'' \<or> kw_shape kw = None \<Longrightarrow> length args \<noteq> 2 \<Longrightarrow>
           add_source s origin args kw = Inr (s, [NotImplemented (length args) ''rectangle''])"
    and "kw_shape kw = Some ''circle'' \<Longrightarrow> length args \<noteq> 1 \<Longrightarrow>
           add_source s origin args kw = Inr (s, [NotImplemented (length args) ''circle''])"
    and "kw_shape kw = Some sh \<Longrightarrow> sh \<noteq> ''rectangle'' \<Longrightarrow> sh \<noteq> ''circle'' \<Longrightarrow>
           add_source s origin args kw = Inr (s, [])"
  using assms by (auto simp: add_source_def Let_def)

text \<open>
  Claim C8 at a request that \<open>add_source\<close> does not implement, the one of
  \<open>coaxial_cable.py\<close> with the shape name \<open>square\<close> and one parameter: the Shape is
  constructed without an exception and with no cell marked, as the claim says, but nothing
  is printed. The message is printed for a rectangle or a circle with a wrong number of
  parameters only, see \<open>add_source_not_implemented\<close>.
\<close>

theorem unknown_shape_prints_nothing:
  "Shape_init (PyInt 2) 1 (27 / 50, 1 / 2) [1 / 2] \<lparr>kw_shape = Some ''square'', kw_filled = None\<rparr>
    = Inr (\<lparr>Ns = 2, h = 1 / 2, potentials = [[0, 0], [0, 0]],
            sources = [[False, False], [False, False]],
            source_potentials = [[0, 0], [0, 0]], potential = 1\<rparr>, [])"
  by (simp add: Shape_init_def add_source_def Let_def np_zeros2_def numeral_2_eq_2)

end
